theory Spec2Isabelle
  imports Complex_Main "HOL-Library.Word" "HOL-Library.Multiset"
begin

section \<open>Exposure series of hdrmerge: \<^verbatim>\<open>input.cpp\<close>\<close>

text \<open>
  The three member functions of \<^verbatim>\<open>ExposureSeries\<close> in \<^verbatim>\<open>input.cpp\<close> are embedded
  as functions on an explicit series state: \<^verbatim>\<open>add\<close> (file discovery), \<^verbatim>\<open>check\<close>
  (metadata validation and sorting) and \<^verbatim>\<open>load\<close> (decoding, normalisation, saturation).

  Conventions of the embedding.
  \<^item> A C++ \<^verbatim>\<open>float\<close> is modelled by the real number it denotes; comparisons are the
    comparisons of \<^typ>\<open>real\<close>. Infinities and NaN are outside the model: where the code
    divides by zero the model stops with \<open>Undefined\<close>. In \<^verbatim>\<open>check\<close> the values come from the
    metadata library as they are, and \<^verbatim>\<open>std::pow\<close> is the exact power. In \<^verbatim>\<open>load\<close> the
    conversions to \<^verbatim>\<open>float\<close>, the quotient of line 215 and the product of line 223 are
    rounded to the nearest binary32 number (\<open>fl 24\<close> below); the index of line 243 is the
    integer part of the exact product.
  \<^item> Every \<^verbatim>\<open>throw std::runtime_error\<close> is a value of the type \<open>error\<close>, one constructor
    per message of the source. Behaviour the C++ standard leaves undefined (reading outside a
    buffer, indexing an empty vector) is the separate constructor \<open>Undefined\<close>.
  \<^item> The libraries the code calls (Exiv2, RawSpeed, the file system, \<^verbatim>\<open>snprintf\<close>) are
    parameters of the functions.
\<close>

subsection \<open>Data model\<close>

type_synonym addr = nat

text \<open>
  Modelled from the spec: the declaration of \<^verbatim>\<open>struct Exposure\<close> (\<^verbatim>\<open>hdrmerge.h\<close>) is not
  part of the sources. The fields are the ones \<^verbatim>\<open>input.cpp\<close> reads and writes:
  \<^verbatim>\<open>filename\<close>, \<^verbatim>\<open>exposure\<close>, \<^verbatim>\<open>shown_exposure\<close> and the pointer \<^verbatim>\<open>image\<close>
  (\<open>None\<close> is the null pointer).
\<close>

record Exposure =
  filename :: string
  exposure :: real
  shown_exposure :: real
  image_ptr :: "addr option"

text \<open>
  Modelled from the spec: the constructor \<^verbatim>\<open>Exposure(filename)\<close> (\<^verbatim>\<open>hdrmerge.h\<close>) builds an
  exposure that holds only its file name; \<^verbatim>\<open>check\<close> overwrites both times and \<^verbatim>\<open>load\<close>
  the image pointer before any of them is read.
\<close>

definition Exposure_new :: "string \<Rightarrow> Exposure" where
  "Exposure_new fn = \<lparr>filename = fn, exposure = - 1, shown_exposure = - 1, image_ptr = None\<rparr>"

text \<open>
  Modelled from the spec: the declaration of \<^verbatim>\<open>struct ExposureSeries\<close> (\<^verbatim>\<open>hdrmerge.h\<close>) is
  not part of the sources; the fields are the members \<^verbatim>\<open>input.cpp\<close> uses.
\<close>

record ExposureSeries =
  exposures :: "Exposure list"
  metadata :: "string \<rightharpoonup> string"
  width :: nat
  height :: nat
  saturation :: real

datatype error =
    Could_not_open string               \<comment> \<open>"could not open RAW file!"\<close>
  | No_exposure_time string             \<comment> \<open>"could not extract the exposure time!"\<close>
  | No_iso_speed string                 \<comment> \<open>"could not extract the ISO speed!"\<close>
  | Iso_differs string                  \<comment> \<open>"detected an ISO speed that is different ..."\<close>
  | No_aperture string                  \<comment> \<open>"could not extract the aperture setting!"\<close>
  | Aperture_differs string             \<comment> \<open>"detected an aperture setting that is different ..."\<close>
  | No_exposure_mode string             \<comment> \<open>"could not extract the exposure mode!"\<close>
  | Duplicate_exposure real             \<comment> \<open>"Duplicate exposure time: ..."\<close>
  | Unable_to_decode string             \<comment> \<open>"Unable to decode RAW file ..."\<close>
  | Decoder_exception string            \<comment> \<open>an exception thrown inside RawSpeed\<close>
  | Subsampled_not_supported            \<comment> \<open>"Subsampled RAW images are currently not supported!"\<close>
  | Only_16bit_supported                \<comment> \<open>"Only RAW data in 16-bit format is currently supported!"\<close>
  | Only_cfa_supported                  \<comment> \<open>"Only sensors with a color filter array ..."\<close>
  | Undefined                           \<comment> \<open>undefined behaviour, or a value that is no real number\<close>

datatype warning =
    Not_manual_exposure string          \<comment> \<open>"... was *not* taken in manual exposure mode!"\<close>
  | Not_manual_focus string             \<comment> \<open>"... was *not* taken in manual focus mode!"\<close>

fun is_error :: "'e + 'a \<Rightarrow> bool" where
  "is_error (Inl e) = True"
| "is_error (Inr v) = False"

subsection \<open>The metadata library (Exiv2) as \<^verbatim>\<open>check\<close> sees it\<close>

text \<open>
  One Exif datum, by the accessors \<^verbatim>\<open>check\<close> calls on it: \<^verbatim>\<open>key()\<close>,
  \<^verbatim>\<open>value().size()\<close>, \<^verbatim>\<open>toString()\<close>, \<^verbatim>\<open>toFloat()\<close> and \<^verbatim>\<open>print(&exifData)\<close>.
\<close>

record Exifdatum =
  d_key :: string
  d_value_size :: nat
  d_toString :: string
  d_toFloat :: real
  d_print :: string

type_synonym ExifData = "Exifdatum list"

text \<open>
  The library: \<^verbatim>\<open>ImageFactory::open\<close> followed by \<^verbatim>\<open>readMetadata\<close> and \<^verbatim>\<open>exifData\<close>
  (\<open>None\<close> when the file cannot be opened or read), and the four accessors of \<^verbatim>\<open>easyaccess.hpp\<close>,
  each returning a datum or \<open>None\<close> for \<^verbatim>\<open>exifData.end()\<close>.
\<close>

record Exiv2 =
  open_image :: "string \<Rightarrow> ExifData option"
  exposureTime :: "ExifData \<Rightarrow> Exifdatum option"
  isoSpeed :: "ExifData \<Rightarrow> Exifdatum option"
  fNumber :: "ExifData \<Rightarrow> Exifdatum option"
  exposureMode :: "ExifData \<Rightarrow> Exifdatum option"

definition findKey :: "ExifData \<Rightarrow> string \<Rightarrow> Exifdatum option" where
  "findKey exifData k = find (\<lambda>d. d_key d = k) exifData"

subsection \<open>\<^verbatim>\<open>ExposureSeries::check\<close>\<close>

text \<open>Lines 76--89: the body of the loop over the attributes of one image.\<close>

definition merge_datum :: "Exifdatum \<Rightarrow> (string \<rightharpoonup> string) \<Rightarrow> (string \<rightharpoonup> string)" where
  "merge_datum it md =
     (if 100 < d_value_size it then md
      else (case md (d_key it) of
              Some current \<Rightarrow>
                if d_toString it = current then md
                else md(d_key it \<mapsto> current @ ''; '' @ d_toString it)
            | None \<Rightarrow> md(d_key it \<mapsto> d_toString it)))"

fun merge_exif :: "ExifData \<Rightarrow> (string \<rightharpoonup> string) \<Rightarrow> (string \<rightharpoonup> string)" where
  "merge_exif [] md = md"
| "merge_exif (it # its) md = merge_exif its (merge_datum it md)"

text \<open>
  The locals \<^verbatim>\<open>isoSpeed\<close> and \<^verbatim>\<open>aperture\<close> of \<^verbatim>\<open>check\<close>, the member \<^verbatim>\<open>metadata\<close>
  and the warnings written to \<^verbatim>\<open>cerr\<close> so far.
\<close>

record check_state =
  cs_isoSpeed :: real
  cs_aperture :: real
  cs_metadata :: "string \<rightharpoonup> string"
  cs_warnings :: "warning list"

text \<open>Lines 66--131: one iteration of the loop, for the exposure at index \<open>i\<close>.\<close>

definition check_exposure ::
  "Exiv2 \<Rightarrow> nat \<Rightarrow> Exposure \<Rightarrow> check_state \<Rightarrow> error + (Exposure \<times> check_state)" where
  "check_exposure lib i ex st =
     (case open_image lib (filename ex) of
        None \<Rightarrow> Inl (Could_not_open (filename ex))
      | Some exifData \<Rightarrow>
     let md = merge_exif exifData (cs_metadata st) in
     (case findKey exifData ''Exif.Photo.ShutterSpeedValue'' of
        None \<Rightarrow> Inl (No_exposure_time (filename ex))
      | Some it_ssv \<Rightarrow>
     (case exposureTime lib exifData of
        None \<Rightarrow> Inl (No_exposure_time (filename ex))
      | Some it_et \<Rightarrow>
     (case isoSpeed lib exifData of
        None \<Rightarrow> Inl (No_iso_speed (filename ex))
      | Some it_iso \<Rightarrow>
     if i \<noteq> 0 \<and> cs_isoSpeed st \<noteq> d_toFloat it_iso then Inl (Iso_differs (filename ex))
     else
     (case fNumber lib exifData of
        None \<Rightarrow> Inl (No_aperture (filename ex))
      | Some it_fnum \<Rightarrow>
     if i \<noteq> 0 \<and> cs_aperture st \<noteq> d_toFloat it_fnum then Inl (Aperture_differs (filename ex))
     else
     (case exposureMode lib exifData of
        None \<Rightarrow> Inl (No_exposure_mode (filename ex))
      | Some it_em \<Rightarrow>
     Inr (ex\<lparr>exposure := 2 powr (- d_toFloat it_ssv), shown_exposure := d_toFloat it_et\<rparr>,
          \<lparr>cs_isoSpeed = (if i = 0 then d_toFloat it_iso else cs_isoSpeed st),
           cs_aperture = (if i = 0 then d_toFloat it_fnum else cs_aperture st),
           cs_metadata = md,
           cs_warnings = cs_warnings st
             @ (if d_print it_em \<noteq> ''Manual'' then [Not_manual_exposure (filename ex)] else [])
             @ (case findKey exifData ''Exif.CanonCs.FocusMode'' of
                  None \<Rightarrow> []
                | Some it_fm \<Rightarrow>
                    if d_print it_fm \<noteq> ''Manual focus''
                    then [Not_manual_focus (filename ex)] else [])\<rparr>)))))))"

text \<open>Lines 65--132: the loop over \<^verbatim>\<open>exposures\<close>, from index \<open>i\<close> on.\<close>

fun check_loop ::
  "Exiv2 \<Rightarrow> nat \<Rightarrow> Exposure list \<Rightarrow> check_state \<Rightarrow> error + (Exposure list \<times> check_state)" where
  "check_loop lib i [] st = Inr ([], st)"
| "check_loop lib i (ex # rest) st =
     (case check_exposure lib i ex st of
        Inl e \<Rightarrow> Inl e
      | Inr (ex', st') \<Rightarrow>
          (case check_loop lib (Suc i) rest st' of
             Inl e \<Rightarrow> Inl e
           | Inr (exs, st'') \<Rightarrow> Inr (ex' # exs, st'')))"

text \<open>\<^verbatim>\<open>std::adjacent_find\<close> with a binary predicate: the first element of the first matching pair.\<close>

fun adjacent_find :: "('a \<Rightarrow> 'a \<Rightarrow> bool) \<Rightarrow> 'a list \<Rightarrow> 'a option" where
  "adjacent_find p (a # b # xs) = (if p a b then Some a else adjacent_find p (b # xs))"
| "adjacent_find p xs = None"

definition check_init :: "ExposureSeries \<Rightarrow> check_state" where
  "check_init s = \<lparr>cs_isoSpeed = - 1, cs_aperture = - 1, cs_metadata = metadata s, cs_warnings = []\<rparr>"

text \<open>
  Lines 62--167. \<^verbatim>\<open>std::sort\<close> with the comparator \<^verbatim>\<open>a.exposure < b.exposure\<close> is
  \<^const>\<open>sort_key\<close>: the two can differ only in the order of exposures with equal times, and
  then \<^verbatim>\<open>check\<close> throws, with a message that is built from the duplicated time. The summary
  written to \<^verbatim>\<open>cout\<close> is not part of the result.
\<close>

definition check :: "Exiv2 \<Rightarrow> ExposureSeries \<Rightarrow> error + (ExposureSeries \<times> warning list)" where
  "check lib s =
     (case check_loop lib 0 (exposures s) (check_init s) of
        Inl e \<Rightarrow> Inl e
      | Inr (exs, st) \<Rightarrow>
          (let sorted_exs = sort_key exposure exs in
           case adjacent_find (\<lambda>a b. exposure a = exposure b) sorted_exs of
             Some it \<Rightarrow> Inl (Duplicate_exposure (exposure it))
           | None \<Rightarrow> Inr (s\<lparr>exposures := sorted_exs, metadata := cs_metadata st\<rparr>, cs_warnings st)))"

subsection \<open>What the metadata library reports for one exposure\<close>

text \<open>
  The values \<^verbatim>\<open>check\<close> reads for one exposure, as functions of the library and the file name:
  the APEX shutter speed value (line 91), the time derived from it (line 94), the displayed
  time (line 96), the ISO speed (line 102), the f-number (line 111) and the rendered exposure
  mode (line 120).
\<close>

definition apex_of :: "Exiv2 \<Rightarrow> Exposure \<Rightarrow> real option" where
  "apex_of lib ex =
     (case open_image lib (filename ex) of
        None \<Rightarrow> None
      | Some exifData \<Rightarrow> map_option d_toFloat (findKey exifData ''Exif.Photo.ShutterSpeedValue''))"

definition shown_of :: "Exiv2 \<Rightarrow> Exposure \<Rightarrow> real option" where
  "shown_of lib ex =
     (case open_image lib (filename ex) of
        None \<Rightarrow> None
      | Some exifData \<Rightarrow> map_option d_toFloat (exposureTime lib exifData))"

definition iso_of :: "Exiv2 \<Rightarrow> Exposure \<Rightarrow> real option" where
  "iso_of lib ex =
     (case open_image lib (filename ex) of
        None \<Rightarrow> None
      | Some exifData \<Rightarrow> map_option d_toFloat (isoSpeed lib exifData))"

definition fnumber_of :: "Exiv2 \<Rightarrow> Exposure \<Rightarrow> real option" where
  "fnumber_of lib ex =
     (case open_image lib (filename ex) of
        None \<Rightarrow> None
      | Some exifData \<Rightarrow> map_option d_toFloat (fNumber lib exifData))"

definition mode_of :: "Exiv2 \<Rightarrow> Exposure \<Rightarrow> string option" where
  "mode_of lib ex =
     (case open_image lib (filename ex) of
        None \<Rightarrow> None
      | Some exifData \<Rightarrow> map_option d_print (exposureMode lib exifData))"

definition time_of :: "Exiv2 \<Rightarrow> Exposure \<Rightarrow> real option" where
  "time_of lib ex = map_option (\<lambda>a. 2 powr (- a)) (apex_of lib ex)"

definition frame_complete :: "Exiv2 \<Rightarrow> Exposure \<Rightarrow> bool" where
  "frame_complete lib ex \<longleftrightarrow>
     apex_of lib ex \<noteq> None \<and> shown_of lib ex \<noteq> None \<and> iso_of lib ex \<noteq> None \<and>
     fnumber_of lib ex \<noteq> None \<and> mode_of lib ex \<noteq> None"

definition frame_result :: "Exiv2 \<Rightarrow> Exposure \<Rightarrow> Exposure \<Rightarrow> bool" where
  "frame_result lib ex ex' \<longleftrightarrow>
     (\<exists>a t. apex_of lib ex = Some a \<and> shown_of lib ex = Some t \<and>
            ex' = ex\<lparr>exposure := 2 powr (- a), shown_exposure := t\<rparr>)"

definition same_settings :: "Exiv2 \<Rightarrow> Exposure list \<Rightarrow> bool" where
  "same_settings lib xs \<longleftrightarrow>
     (case xs of
        [] \<Rightarrow> True
      | x # rest \<Rightarrow>
          (\<forall>ex\<in>set rest. iso_of lib ex = iso_of lib x \<and> fnumber_of lib ex = fnumber_of lib x))"

definition exif_of :: "Exiv2 \<Rightarrow> Exposure \<Rightarrow> ExifData" where
  "exif_of lib ex = (case open_image lib (filename ex) of None \<Rightarrow> [] | Some exifData \<Rightarrow> exifData)"

subsection \<open>\<^verbatim>\<open>ExposureSeries::add\<close>\<close>

text \<open>
  What \<^verbatim>\<open>add\<close> uses of the C library and the file system: \<open>snprintf fmt i\<close> is the
  string that \<^verbatim>\<open>snprintf(filename, sizeof(filename), fmt, i)\<close> leaves in \<^verbatim>\<open>filename\<close>, and
  \<open>access_ok name\<close> holds when \<^verbatim>\<open>access(name, F_OK)\<close> returns 0.
\<close>

record Posix =
  snprintf :: "string \<Rightarrow> int \<Rightarrow> string"
  access_ok :: "string \<Rightarrow> bool"

text \<open>
  Lines 32--45: the first loop, entered with the counter \<open>i\<close>, the flag \<^verbatim>\<open>success\<close> and
  the vector \<^verbatim>\<open>exposures\<close>. The counter is a C \<^verbatim>\<open>int\<close>: incrementing it at
  \<^verbatim>\<open>INT_MAX\<close> is undefined, which also bounds the number of iterations.
\<close>

function add_from_zero ::
  "Posix \<Rightarrow> string \<Rightarrow> int \<Rightarrow> bool \<Rightarrow> Exposure list \<Rightarrow> error + (bool \<times> Exposure list)" where
  "add_from_zero os fmt i success exps =
     (if \<not> access_ok os (snprintf os fmt i) then Inr (success, exps)
      else if i = 1 \<and> CHR ''%'' \<notin> set fmt then Inr (success, exps)
      else if 2147483647 \<le> i then Inl Undefined
      else add_from_zero os fmt (i + 1) True (exps @ [Exposure_new (snprintf os fmt i)]))"
  by pat_completeness auto
termination
  by (relation "measure (\<lambda>(os, fmt, i, success, exps). nat (2147483647 - i))") auto

declare add_from_zero.simps [simp del]

text \<open>Lines 49--58: the second loop, which has no test for a template without \<^verbatim>\<open>%\<close>.\<close>

function add_from_one :: "Posix \<Rightarrow> string \<Rightarrow> int \<Rightarrow> Exposure list \<Rightarrow> error + Exposure list" where
  "add_from_one os fmt i exps =
     (if \<not> access_ok os (snprintf os fmt i) then Inr exps
      else if 2147483647 \<le> i then Inl Undefined
      else add_from_one os fmt (i + 1) (exps @ [Exposure_new (snprintf os fmt i)]))"
  by pat_completeness auto
termination
  by (relation "measure (\<lambda>(os, fmt, i, exps). nat (2147483647 - i))") auto

declare add_from_one.simps [simp del]

definition add :: "Posix \<Rightarrow> string \<Rightarrow> ExposureSeries \<Rightarrow> error + ExposureSeries" where
  "add os fmt s =
     (case add_from_zero os fmt 0 False (exposures s) of
        Inl e \<Rightarrow> Inl e
      | Inr (success, exps) \<Rightarrow>
          if \<not> success then
            (case add_from_one os fmt 1 exps of
               Inl e \<Rightarrow> Inl e
             | Inr exps' \<Rightarrow> Inr (s\<lparr>exposures := exps'\<rparr>))
          else Inr (s\<lparr>exposures := exps\<rparr>))"

subsection \<open>The raw decoder (RawSpeed) and the heap as \<^verbatim>\<open>load\<close> sees them\<close>

text \<open>
  Modelled from the spec: the declarations of RawSpeed's \<^verbatim>\<open>RawImage\<close> are not part of the
  sources. The record holds what \<^verbatim>\<open>load\<close> reads of a decoded image: the subsampling
  factors, the sample type, the colour-filter-array flag, the dimensions, the row stride
  \<^verbatim>\<open>pitch\<close> in bytes, the black level and the white point, and the samples behind
  \<^verbatim>\<open>getData(0, 0)\<close> as 16-bit words. The dimensions and the stride are natural numbers:
  the C \<^verbatim>\<open>int\<close> arithmetic on them is not taken to overflow.
\<close>

datatype RawImageType = TYPE_USHORT16 | TYPE_FLOAT32

record RawImage =
  subsampling_x :: int
  subsampling_y :: int
  dataType :: RawImageType
  isCFA :: bool
  dim_x :: nat
  dim_y :: nat
  pitch :: nat
  blackLevel :: int
  whitePoint :: int
  raw_data :: "16 word list"

text \<open>
  What reading, parsing and decoding one file gives: no decoder (\<^verbatim>\<open>getDecoder\<close> returns
  null), an exception of the decoder's own, or a decoded image.
\<close>

datatype decode_result = No_decoder | Decoder_threw | Decoded RawImage

type_synonym RawSpeed = "string \<Rightarrow> decode_result"

text \<open>
  The heap of \<^verbatim>\<open>float\<close> arrays: an address is an index into the list of all arrays
  allocated so far, so that \<^verbatim>\<open>new\<close> always returns an address that was not in use;
  \<open>None\<close> is a deleted array.
\<close>

type_synonym Heap = "real list option list"

definition new_array :: "Heap \<Rightarrow> real list \<Rightarrow> addr \<times> Heap" where
  "new_array h xs = (length h, h @ [Some xs])"

definition read_array :: "Heap \<Rightarrow> addr \<Rightarrow> real list option" where
  "read_array h a = (if a < length h then h ! a else None)"

definition write_array :: "Heap \<Rightarrow> addr \<Rightarrow> real list \<Rightarrow> Heap" where
  "write_array h a xs = h[a := Some xs]"

definition delete_array :: "Heap \<Rightarrow> addr \<Rightarrow> Heap" where
  "delete_array h a = h[a := None]"

subsection \<open>Binary32 arithmetic\<close>

text \<open>
  The value of a \<^verbatim>\<open>float\<close> is a real number, and an operation on \<^verbatim>\<open>float\<close>s is the
  exact operation followed by \<open>fl 24\<close>: rounding to the nearest number with 24 significant
  bits, ties to the even one (the default rounding of IEEE 754, with every \<^verbatim>\<open>float\<close>
  expression evaluated in \<^verbatim>\<open>float\<close>). \<open>binade x\<close> is the exponent
  \<open>e\<close> with \<open>2^e \<le> x < 2^(e+1)\<close>, so that the numbers with \<open>p\<close> significant bits next to
  \<open>x\<close> are the multiples of \<open>pow2 (binade \<bar>x\<bar> - (p - 1))\<close>. The exponent range is not
  bounded; for levels and samples that fit C's \<^verbatim>\<open>int\<close> and \<^verbatim>\<open>uint16_t\<close> the values of
  lines 215 and 223 are far from the ends of the range of \<^verbatim>\<open>float\<close>.
\<close>

definition pow2 :: "int \<Rightarrow> real" where
  "pow2 k = (if 0 \<le> k then 2 ^ nat k else 1 / 2 ^ nat (- k))"

function binade :: "real \<Rightarrow> int" where
  "binade x =
     (if x \<le> 0 then 0
      else if x < 1 then binade (2 * x) - 1
      else if 2 \<le> x then binade (x / 2) + 1
      else 0)"
  by pat_completeness auto
termination
proof (relation "measure (\<lambda>x. if x < 1 then nat \<lfloor>1 / x\<rfloor> + 1 else nat \<lfloor>x\<rfloor>)")
  show "wf (measure (\<lambda>x::real. if x < 1 then nat \<lfloor>1 / x\<rfloor> + 1 else nat \<lfloor>x\<rfloor>))" by simp
next
  fix x :: real
  assume pos: "\<not> x \<le> 0" and lt: "x < 1"
  have "1 / (2 * x) = 1 / x / real_of_int 2" by simp
  then have half: "\<lfloor>1 / (2 * x)\<rfloor> = \<lfloor>1 / x\<rfloor> div 2"
    by (simp only: floor_divide_real_eq_div [of 2 "1 / x"])
  from pos lt have "real_of_int 1 \<le> 1 / x" by simp
  then have one: "1 \<le> \<lfloor>1 / x\<rfloor>" by (simp only: le_floor_iff)
  have "(if 2 * x < 1 then nat \<lfloor>1 / (2 * x)\<rfloor> + 1 else nat \<lfloor>2 * x\<rfloor>) < nat \<lfloor>1 / x\<rfloor> + 1"
  proof (cases "2 * x < 1")
    case True
    from one half have "nat \<lfloor>1 / (2 * x)\<rfloor> + 1 < nat \<lfloor>1 / x\<rfloor> + 1" by linarith
    with True show ?thesis by (simp only: if_True)
  next
    case False
    with lt have "\<lfloor>2 * x\<rfloor> = 1" by (intro floor_unique) auto
    with one have "nat \<lfloor>2 * x\<rfloor> < nat \<lfloor>1 / x\<rfloor> + 1" by linarith
    with False show ?thesis by (simp only: if_False)
  qed
  with lt show "(2 * x, x) \<in> measure (\<lambda>x. if x < 1 then nat \<lfloor>1 / x\<rfloor> + 1 else nat \<lfloor>x\<rfloor>)"
    by (simp only: in_measure if_True)
next
  fix x :: real
  assume ge: "2 \<le> x"
  have "x / 2 = x / real_of_int 2" by simp
  then have half: "\<lfloor>x / 2\<rfloor> = \<lfloor>x\<rfloor> div 2"
    by (simp only: floor_divide_real_eq_div [of 2 x])
  from ge have "real_of_int 2 \<le> x" by simp
  then have two: "2 \<le> \<lfloor>x\<rfloor>" by (simp only: le_floor_iff)
  from ge have a: "\<not> x / 2 < 1" "\<not> x < 1" by simp_all
  from two half have "nat \<lfloor>x / 2\<rfloor> < nat \<lfloor>x\<rfloor>" by linarith
  with a show "(x / 2, x) \<in> measure (\<lambda>x. if x < 1 then nat \<lfloor>1 / x\<rfloor> + 1 else nat \<lfloor>x\<rfloor>)"
    by (simp only: in_measure if_False)
qed

declare binade.simps [simp del]

definition round_even :: "real \<Rightarrow> int" where
  "round_even x =
     (if x - of_int \<lfloor>x\<rfloor> < 1 / 2 then \<lfloor>x\<rfloor>
      else if 1 / 2 < x - of_int \<lfloor>x\<rfloor> then \<lfloor>x\<rfloor> + 1
      else if even \<lfloor>x\<rfloor> then \<lfloor>x\<rfloor> else \<lfloor>x\<rfloor> + 1)"

definition fl :: "nat \<Rightarrow> real \<Rightarrow> real" where
  "fl p x =
     (if x = 0 then 0
      else real_of_int (round_even (x / pow2 (binade \<bar>x\<bar> - (int p - 1))))
             * pow2 (binade \<bar>x\<bar> - (int p - 1)))"

subsection \<open>\<^verbatim>\<open>ExposureSeries::load\<close>\<close>

text \<open>
  Lines 222--223: the inner loop, with \<open>src\<close> the index in the decoder's buffer that
  \<^verbatim>\<open>src\<close> points to and the number of columns still to do. The difference
  \<^verbatim>\<open>*src++ - offset\<close> is an \<^verbatim>\<open>int\<close>, both operands being promoted from \<^verbatim>\<open>uint16_t\<close>;
  it is converted to \<^verbatim>\<open>float\<close> for the product with \<^verbatim>\<open>factor\<close>, and the product is
  rounded to \<^verbatim>\<open>float\<close>. A read outside the buffer is undefined.
\<close>

fun normalize_row :: "16 word list \<Rightarrow> 16 word \<Rightarrow> real \<Rightarrow> nat \<Rightarrow> nat \<Rightarrow> error + real list" where
  "normalize_row data offset factor src 0 = Inr []"
| "normalize_row data offset factor src (Suc n) =
     (if src < length data then
        (case normalize_row data offset factor (Suc src) n of
           Inl e \<Rightarrow> Inl e
         | Inr rest \<Rightarrow>
             Inr (fl 24 (fl 24 (real_of_int (uint (data ! src) - uint offset)) * factor) # rest))
      else Inl Undefined)"

text \<open>
  Lines 218--224: the outer loop, from row \<open>y\<close> on, with the number of rows still to do.
  Row \<open>y\<close> is read from \<^verbatim>\<open>data + y*pitch\<close> and written to \<^verbatim>\<open>image + y*width\<close>, so the
  rows of the result follow each other without gap.
\<close>

fun normalize_rows ::
  "16 word list \<Rightarrow> 16 word \<Rightarrow> real \<Rightarrow> nat \<Rightarrow> nat \<Rightarrow> nat \<Rightarrow> nat \<Rightarrow> error + real list" where
  "normalize_rows data offset factor p w y 0 = Inr []"
| "normalize_rows data offset factor p w y (Suc n) =
     (case normalize_row data offset factor (y * p) w of
        Inl e \<Rightarrow> Inl e
      | Inr row \<Rightarrow>
          (case normalize_rows data offset factor p w (Suc y) n of
             Inl e \<Rightarrow> Inl e
           | Inr rest \<Rightarrow> Inr (row @ rest)))"

text \<open>
  Lines 206--224 for one decoded image. \<^verbatim>\<open>uint16_t offset = raw->blackLevel\<close> keeps the
  black level modulo \<open>2^16\<close>. \<^verbatim>\<open>factor\<close> is the quotient of \<^verbatim>\<open>1.0f\<close> by the difference
  converted to \<^verbatim>\<open>float\<close>, and is itself rounded to \<^verbatim>\<open>float\<close>. When the white point equals
  \<^verbatim>\<open>offset\<close> line 215 divides by zero: C++ leaves this undefined, and the infinity that
  IEEE 754 gives is no real number.
\<close>

definition normalize_image :: "RawImage \<Rightarrow> error + real list" where
  "normalize_image raw =
     (let offset = (word_of_int (blackLevel raw) :: 16 word) in
      if whitePoint raw - uint offset = 0 then Inl Undefined
      else normalize_rows (raw_data raw) offset
             (fl 24 (1 / fl 24 (real_of_int (whitePoint raw - uint offset))))
             (pitch raw div 2) (dim_x raw) 0 (dim_y raw))"

text \<open>
  Lines 177--226: the body of the loop for one exposure. It returns the exposure with its
  new image, the heap, and the dimensions of the decoded image.
\<close>

definition load_exposure ::
  "RawSpeed \<Rightarrow> Exposure \<Rightarrow> Heap \<Rightarrow> error + (Exposure \<times> Heap \<times> nat \<times> nat)" where
  "load_exposure dec ex h =
     (case dec (filename ex) of
        Decoder_threw \<Rightarrow> Inl (Decoder_exception (filename ex))
      | No_decoder \<Rightarrow> Inl (Unable_to_decode (filename ex))
      | Decoded raw \<Rightarrow>
          if subsampling_x raw \<noteq> 1 \<or> subsampling_y raw \<noteq> 1 then Inl Subsampled_not_supported
          else if dataType raw \<noteq> TYPE_USHORT16 then Inl Only_16bit_supported
          else if \<not> isCFA raw then Inl Only_cfa_supported
          else
            (case normalize_image raw of
               Inl e \<Rightarrow> Inl e
             | Inr img \<Rightarrow>
                 (case new_array h img of
                    (a, h') \<Rightarrow> Inr (ex\<lparr>image_ptr := Some a\<rparr>, h', dim_x raw, dim_y raw))))"

text \<open>
  Lines 176--233: the loop over the exposures. The iterations of the OpenMP loop touch
  disjoint data (each its own file and its own exposure); the model runs them in the order of
  the index. The state is the members \<^verbatim>\<open>width\<close> and \<^verbatim>\<open>height\<close>, written by the iteration
  with index 0, and the heap.
\<close>

fun load_loop ::
  "RawSpeed \<Rightarrow> nat \<Rightarrow> Exposure list \<Rightarrow> nat \<times> nat \<times> Heap \<Rightarrow>
   error + (Exposure list \<times> nat \<times> nat \<times> Heap)" where
  "load_loop dec i [] st = Inr ([], st)"
| "load_loop dec i (ex # rest) (w, ht, h) =
     (case load_exposure dec ex h of
        Inl e \<Rightarrow> Inl e
      | Inr (ex', h', w', ht') \<Rightarrow>
          (case load_loop dec (Suc i) rest
                  (if i = 0 then w' else w, if i = 0 then ht' else ht, h') of
             Inl e \<Rightarrow> Inl e
           | Inr (exs, st') \<Rightarrow> Inr (ex' # exs, st')))"

text \<open>
  \<^verbatim>\<open>std::nth_element\<close> is a parameter \<open>sel\<close>: \<open>sel xs n\<close> is the range \<open>xs\<close> as
  \<^verbatim>\<open>std::nth_element(first, first + n, last)\<close> leaves it. The C++ standard fixes this
  rearrangement only in part: it is a permutation, no element before position \<open>n\<close> is greater
  than the one at \<open>n\<close>, and no element after it is less.
\<close>

definition nth_element_contract :: "(real list \<Rightarrow> nat \<Rightarrow> real list) \<Rightarrow> bool" where
  "nth_element_contract sel \<longleftrightarrow>
     (\<forall>xs n. n < length xs \<longrightarrow>
        mset (sel xs n) = mset xs \<and>
        (\<forall>i<n. sel xs n ! i \<le> sel xs n ! n) \<and>
        (\<forall>i. n < i \<and> i < length xs \<longrightarrow> sel xs n ! n \<le> sel xs n ! i))"

text \<open>
  Lines 169--249. After the loop: \<^verbatim>\<open>temp\<close> is a new array holding the first \<^verbatim>\<open>npix\<close>
  values of the image of the last exposure (reading \<^verbatim>\<open>exposures[size()-1]\<close> of an empty
  vector, or more values than that image has, is undefined); \<^verbatim>\<open>std::nth_element\<close> works on
  \<^verbatim>\<open>temp\<close>; \<^verbatim>\<open>saturation\<close> is read from \<^verbatim>\<open>temp[percentile]\<close> (undefined when
  \<^verbatim>\<open>npix\<close> is 0), and \<^verbatim>\<open>temp\<close> is deleted.
\<close>

definition load ::
  "RawSpeed \<Rightarrow> (real list \<Rightarrow> nat \<Rightarrow> real list) \<Rightarrow> ExposureSeries \<times> Heap \<Rightarrow>
   error + (ExposureSeries \<times> Heap)" where
  "load dec sel sh =
     (case sh of (s, h) \<Rightarrow>
      (case load_loop dec 0 (exposures s) (width s, height s, h) of
         Inl e \<Rightarrow> Inl e
       | Inr (exs, w, ht, h1) \<Rightarrow>
           if exs = [] then Inl Undefined
           else
             (case image_ptr (last exs) of
                None \<Rightarrow> Inl Undefined
              | Some p \<Rightarrow>
                  (case read_array h1 p of
                     None \<Rightarrow> Inl Undefined
                   | Some img \<Rightarrow>
                       (let npix = w * ht; percentile = nat \<lfloor>real npix * 0.999\<rfloor> in
                        if length img < npix \<or> npix \<le> percentile then Inl Undefined
                        else
                          (case new_array h1 (take npix img) of
                             (temp, h2) \<Rightarrow>
                               (let h3 = write_array h2 temp (sel (take npix img) percentile) in
                                case read_array h3 temp of
                                  None \<Rightarrow> Inl Undefined
                                | Some sorted_temp \<Rightarrow>
                                    Inr (s\<lparr>exposures := exs, width := w, height := ht,
                                           saturation := sorted_temp ! percentile\<rparr>,
                                         delete_array h3 temp))))))))"

section \<open>Example inputs\<close>

subsection \<open>Example metadata\<close>

text \<open>
  A small metadata library and eight files for the concrete instances below. Files \<open>a\<close>,
  \<open>b\<close>, \<open>c\<close> form a valid bracket (APEX 5, 7, 3; \<open>b\<close> not in manual exposure mode);
  \<open>d\<close> repeats the time of \<open>a\<close>; \<open>e\<close> has another ISO speed, \<open>f\<close> another
  f-number; \<open>g\<close> lacks the shutter speed value and \<open>h\<close> the exposure mode.
\<close>

definition ex_datum :: "string \<Rightarrow> nat \<Rightarrow> string \<Rightarrow> real \<Rightarrow> string \<Rightarrow> Exifdatum" where
  "ex_datum k n s f p =
     \<lparr>d_key = k, d_value_size = n, d_toString = s, d_toFloat = f, d_print = p\<rparr>"

definition ex_exif :: "real \<Rightarrow> string \<Rightarrow> real \<Rightarrow> real \<Rightarrow> real \<Rightarrow> string \<Rightarrow> ExifData" where
  "ex_exif apex shown t speed fnum m =
     [ex_datum ''Exif.Photo.ShutterSpeedValue'' 8 ''apex'' apex ''apex'',
      ex_datum ''Exif.Photo.ExposureTime'' 8 shown t shown,
      ex_datum ''Exif.Photo.ISOSpeedRatings'' 2 ''speed'' speed ''speed'',
      ex_datum ''Exif.Photo.FNumber'' 8 ''fnum'' fnum ''fnum'',
      ex_datum ''Exif.Photo.ExposureMode'' 2 ''mode'' 1 m]"

definition ex_files :: "string \<rightharpoonup> ExifData" where
  "ex_files =
     [''a'' \<mapsto> ex_exif 5 ''1/30'' (1 / 30) 100 8 ''Manual'',
      ''b'' \<mapsto> ex_exif 7 ''1/125'' (1 / 125) 100 8 ''Auto'',
      ''c'' \<mapsto> ex_exif 3 ''1/8'' (1 / 8) 100 8 ''Manual'',
      ''d'' \<mapsto> ex_exif 5 ''1/30'' (1 / 30) 100 8 ''Manual'',
      ''e'' \<mapsto> ex_exif 4 ''1/15'' (1 / 15) 200 8 ''Manual'',
      ''f'' \<mapsto> ex_exif 4 ''1/15'' (1 / 15) 100 11 ''Manual'',
      ''g'' \<mapsto> tl (ex_exif 4 ''1/15'' (1 / 15) 100 8 ''Manual''),
      ''h'' \<mapsto> butlast (ex_exif 4 ''1/15'' (1 / 15) 100 8 ''Manual'')]"

definition ex_lib :: Exiv2 where
  "ex_lib =
     \<lparr>open_image = ex_files,
      exposureTime = (\<lambda>exifData. findKey exifData ''Exif.Photo.ExposureTime''),
      isoSpeed = (\<lambda>exifData. findKey exifData ''Exif.Photo.ISOSpeedRatings''),
      fNumber = (\<lambda>exifData. findKey exifData ''Exif.Photo.FNumber''),
      exposureMode = (\<lambda>exifData. findKey exifData ''Exif.Photo.ExposureMode'')\<rparr>"

definition ex_series :: "string list \<Rightarrow> ExposureSeries" where
  "ex_series fns =
     \<lparr>exposures = map Exposure_new fns, metadata = Map.empty, width = 0, height = 0,
      saturation = 0\<rparr>"

text \<open>
  Two attributes for the size test of line 77: 25 values of four bytes each (a value of 100
  bytes, a text of 149 characters), and a maker note of 4096 bytes with a short text.
\<close>

definition ex_long_datum :: Exifdatum where
  "ex_long_datum =
     ex_datum ''Exif.Image.StripOffsets'' 100
       (''65536'' @ concat (replicate 24 '' 65536'')) 65536 ''65536''"

definition ex_huge_datum :: Exifdatum where
  "ex_huge_datum = ex_datum ''Exif.Photo.MakerNote'' 4096 ''(Binary value suppressed)'' 0 ''''"

subsection \<open>Example file system\<close>



subsection \<open>Example decoder\<close>

text \<open>
  Three decodable files of 2 by 2 pixels, each row followed by one sample of padding (a
  stride of 6 bytes), with black level 100 and white point 4100, and three files that
  \<^verbatim>\<open>load\<close> rejects. The example \<^verbatim>\<open>nth_element\<close> sorts the whole range.
\<close>

definition ex_raw :: "16 word list \<Rightarrow> RawImage" where
  "ex_raw samples =
     \<lparr>subsampling_x = 1, subsampling_y = 1, dataType = TYPE_USHORT16, isCFA = True,
      dim_x = 2, dim_y = 2, pitch = 6, blackLevel = 100, whitePoint = 4100,
      raw_data = samples\<rparr>"

definition ex_dec :: RawSpeed where
  "ex_dec fn =
     (if fn = ''a'' then Decoded (ex_raw [100, 2100, 7, 1100, 600, 7])
      else if fn = ''b'' then Decoded (ex_raw [100, 1100, 7, 350, 200, 7])
      else if fn = ''c'' then Decoded (ex_raw [2100, 4100, 7, 4500, 3100, 7])
      else if fn = ''sub'' then Decoded ((ex_raw [])\<lparr>subsampling_x := 2\<rparr>)
      else if fn = ''f32'' then Decoded ((ex_raw [])\<lparr>dataType := TYPE_FLOAT32\<rparr>)
      else if fn = ''mono'' then Decoded ((ex_raw [])\<lparr>isCFA := False\<rparr>)
      else No_decoder)"

definition ex_nth_element :: "real list \<Rightarrow> nat \<Rightarrow> real list" where
  "ex_nth_element xs n = sort xs"

definition ex_checked :: ExposureSeries where
  "ex_checked =
     \<lparr>exposures =
        [\<lparr>filename = ''b'', exposure = 1 / 128, shown_exposure = 1 / 125, image_ptr = None\<rparr>,
         \<lparr>filename = ''a'', exposure = 1 / 32, shown_exposure = 1 / 30, image_ptr = None\<rparr>,
         \<lparr>filename = ''c'', exposure = 1 / 8, shown_exposure = 1 / 8, image_ptr = None\<rparr>],
      metadata = Map.empty, width = 0, height = 0, saturation = 0\<rparr>"

section \<open>Properties\<close>

subsection \<open>The loop of \<^verbatim>\<open>check\<close>\<close>

lemmas views = apex_of_def shown_of_def iso_of_def fnumber_of_def mode_of_def

lemma check_exposure_Inr_iff:
  "(\<exists>r. check_exposure lib i ex st = Inr r) \<longleftrightarrow>
     frame_complete lib ex \<and>
     (i \<noteq> 0 \<longrightarrow> iso_of lib ex = Some (cs_isoSpeed st) \<and> fnumber_of lib ex = Some (cs_aperture st))"
  by (auto simp: check_exposure_def frame_complete_def views Let_def split: option.splits)

lemma check_exposure_InrD:
  assumes "check_exposure lib i ex st = Inr (ex', st')"
  shows "filename ex' = filename ex"
    and "apex_of lib ex = Some a \<Longrightarrow> exposure ex' = 2 powr (- a)"
    and "apex_of lib ex \<noteq> None"
    and "image_ptr ex' = image_ptr ex"
    and "cs_isoSpeed st' = (if i = 0 then the (iso_of lib ex) else cs_isoSpeed st)"
    and "cs_aperture st' = (if i = 0 then the (fnumber_of lib ex) else cs_aperture st)"
    and "cs_metadata st' = merge_exif (the (open_image lib (filename ex))) (cs_metadata st)"
  using assms
  by (auto simp: check_exposure_def views Let_def split: option.splits if_splits)

lemma check_exposure_Inr_shape:
  assumes "check_exposure lib i ex st = Inr (ex', st')"
  shows "\<exists>a t. apex_of lib ex = Some a \<and> shown_of lib ex = Some t \<and>
           ex' = ex\<lparr>exposure := 2 powr (- a), shown_exposure := t\<rparr>"
  using assms
  by (auto simp: check_exposure_def views Let_def split: option.splits if_splits)

lemma check_loop_Inr_shape:
  "check_loop lib i xs st = Inr (exs, st') \<Longrightarrow> list_all2 (frame_result lib) xs exs"
proof (induction xs arbitrary: i st exs st')
  case Nil
  then show ?case by simp
next
  case (Cons x xs)
  from Cons.prems obtain x' st1 exs1 where
    a: "check_exposure lib i x st = Inr (x', st1)" and
    b: "check_loop lib (Suc i) xs st1 = Inr (exs1, st')" and
    c: "exs = x' # exs1"
    by (auto split: sum.splits prod.splits)
  from check_exposure_Inr_shape [OF a] have "frame_result lib x x'"
    by (simp add: frame_result_def)
  with Cons.IH [OF b] c show ?case by simp
qed

lemma check_loop_append:
  "check_loop lib i (xs @ ys) st =
     (case check_loop lib i xs st of
        Inl e \<Rightarrow> Inl e
      | Inr (exs, st') \<Rightarrow>
          (case check_loop lib (i + length xs) ys st' of
             Inl e \<Rightarrow> Inl e
           | Inr (eys, st'') \<Rightarrow> Inr (exs @ eys, st'')))"
  by (induction xs arbitrary: i st) (auto split: sum.splits prod.splits)

lemma check_loop_pos_Inr_iff:
  "0 < i \<Longrightarrow>
   (\<exists>r. check_loop lib i xs st = Inr r) \<longleftrightarrow>
     (\<forall>ex\<in>set xs. frame_complete lib ex \<and> iso_of lib ex = Some (cs_isoSpeed st) \<and>
        fnumber_of lib ex = Some (cs_aperture st))"
proof (induction xs arbitrary: i st)
  case Nil
  then show ?case by simp
next
  case (Cons x xs)
  show ?case
  proof (cases "check_exposure lib i x st")
    case (Inl e)
    with check_exposure_Inr_iff [of lib i x st] Cons.prems show ?thesis by auto
  next
    case (Inr r)
    obtain x' st1 where r: "r = (x', st1)" by (cases r)
    from Inr r check_exposure_InrD(5,6) [of lib i x st x' st1] Cons.prems
    have keep: "cs_isoSpeed st1 = cs_isoSpeed st" "cs_aperture st1 = cs_aperture st" by auto
    from Inr check_exposure_Inr_iff [of lib i x st] Cons.prems
    have hd_ok: "frame_complete lib x \<and> iso_of lib x = Some (cs_isoSpeed st) \<and>
        fnumber_of lib x = Some (cs_aperture st)" by auto
    have "(\<exists>r. check_loop lib i (x # xs) st = Inr r) \<longleftrightarrow> (\<exists>r. check_loop lib (Suc i) xs st1 = Inr r)"
      using Inr r by (auto split: sum.splits prod.splits)
    also have "\<dots> \<longleftrightarrow> (\<forall>ex\<in>set xs. frame_complete lib ex \<and> iso_of lib ex = Some (cs_isoSpeed st1) \<and>
        fnumber_of lib ex = Some (cs_aperture st1))"
      by (rule Cons.IH) simp
    finally show ?thesis using hd_ok keep by auto
  qed
qed

lemma check_loop_zero_Inr_iff:
  "(\<exists>r. check_loop lib 0 (x # xs) st = Inr r) \<longleftrightarrow>
     frame_complete lib x \<and>
     (\<forall>ex\<in>set xs. frame_complete lib ex \<and> iso_of lib ex = iso_of lib x \<and>
        fnumber_of lib ex = fnumber_of lib x)"
proof (cases "check_exposure lib 0 x st")
  case (Inl e)
  with check_exposure_Inr_iff [of lib 0 x st] show ?thesis by auto
next
  case (Inr r)
  obtain x' st1 where r: "r = (x', st1)" by (cases r)
  from Inr check_exposure_Inr_iff [of lib 0 x st] have c: "frame_complete lib x" by auto
  then have "iso_of lib x \<noteq> None" "fnumber_of lib x \<noteq> None" by (auto simp: frame_complete_def)
  with Inr r check_exposure_InrD(5,6) [of lib 0 x st x' st1]
  have ref: "iso_of lib x = Some (cs_isoSpeed st1)" "fnumber_of lib x = Some (cs_aperture st1)" by auto
  have "(\<exists>r. check_loop lib 0 (x # xs) st = Inr r) \<longleftrightarrow> (\<exists>r. check_loop lib (Suc 0) xs st1 = Inr r)"
    using Inr r by (auto split: sum.splits prod.splits)
  also have "\<dots> \<longleftrightarrow> (\<forall>ex\<in>set xs. frame_complete lib ex \<and> iso_of lib ex = Some (cs_isoSpeed st1) \<and>
        fnumber_of lib ex = Some (cs_aperture st1))"
    by (rule check_loop_pos_Inr_iff) simp
  finally show ?thesis using c ref by auto
qed

lemma check_loop_Inr_iff:
  "(\<exists>r. check_loop lib 0 xs st = Inr r) \<longleftrightarrow>
     (\<forall>ex\<in>set xs. frame_complete lib ex) \<and> same_settings lib xs"
proof (cases xs)
  case Nil
  then show ?thesis by (simp add: same_settings_def)
next
  case (Cons x rest)
  then show ?thesis
    using check_loop_zero_Inr_iff [of lib x rest st] by (auto simp: same_settings_def)
qed

lemma adjacent_find_None_strict:
  "sorted (map f xs) \<Longrightarrow> adjacent_find (\<lambda>a b. f a = f b) xs = None \<Longrightarrow>
   sorted_wrt (\<lambda>a b. f a < f b) xs"
proof (induction "\<lambda>a b. f a = f b" xs rule: adjacent_find.induct)
  case (1 a b xs)
  from "1.prems" have ne: "f a \<noteq> f b" and rest: "adjacent_find (\<lambda>a b. f a = f b) (b # xs) = None"
    by (auto split: if_splits)
  from "1.prems" have le: "\<forall>y\<in>set (b # xs). f a \<le> f y" and srt: "sorted (map f (b # xs))"
    by auto
  from "1.hyps" ne rest srt have ih: "sorted_wrt (\<lambda>a b. f a < f b) (b # xs)" by simp
  have "f a < f y" if "y \<in> set (b # xs)" for y
  proof -
    from le ne have "f a < f b" by auto
    moreover from srt that have "f b \<le> f y" by auto
    ultimately show ?thesis by simp
  qed
  with ih show ?case by simp
qed simp_all

lemma adjacent_find_SomeD:
  "adjacent_find p xs = Some r \<Longrightarrow>
   \<exists>i. Suc i < length xs \<and> r = xs ! i \<and> p (xs ! i) (xs ! Suc i)"
proof (induction p xs rule: adjacent_find.induct)
  case (1 p a b xs)
  show ?case
  proof (cases "p a b")
    case True
    with "1.prems" have "r = (a # b # xs) ! 0 \<and> p ((a # b # xs) ! 0) ((a # b # xs) ! Suc 0)"
      by simp
    then show ?thesis by (intro exI [of _ 0]) simp
  next
    case False
    with 1 obtain i where "Suc i < length (b # xs)" "r = (b # xs) ! i"
      "p ((b # xs) ! i) ((b # xs) ! Suc i)" by auto
    then show ?thesis by (intro exI [of _ "Suc i"]) simp
  qed
qed simp_all

lemma adjacent_find_None_iff_distinct:
  assumes "sorted (map f xs)"
  shows "adjacent_find (\<lambda>a b. f a = f b) xs = None \<longleftrightarrow> distinct (map f xs)"
proof
  assume "adjacent_find (\<lambda>a b. f a = f b) xs = None"
  with assms have "sorted_wrt (\<lambda>a b. f a < f b) xs" by (rule adjacent_find_None_strict)
  then have "sorted_wrt (<) (map f xs)" by (simp add: sorted_wrt_map)
  then show "distinct (map f xs)" by (simp add: strict_sorted_iff)
next
  assume d: "distinct (map f xs)"
  show "adjacent_find (\<lambda>a b. f a = f b) xs = None"
  proof (rule ccontr)
    assume "adjacent_find (\<lambda>a b. f a = f b) xs \<noteq> None"
    then obtain a where "adjacent_find (\<lambda>a b. f a = f b) xs = Some a" by auto
    from adjacent_find_SomeD [OF this] obtain i where
      i: "Suc i < length xs" "f (xs ! i) = f (xs ! Suc i)" by auto
    then have "map f xs ! i = map f xs ! Suc i" by simp
    with d i(1) show False by (auto simp: distinct_conv_nth)
  qed
qed

lemma distinct_map_sort_key:
  "distinct (map f (sort_key f xs)) \<longleftrightarrow> distinct (map f xs)"
proof -
  have "mset (map f (sort_key f xs)) = mset (map f xs)" by simp
  then show ?thesis by (rule mset_eq_imp_distinct_iff)
qed

lemma frame_result_times:
  "list_all2 (frame_result lib) xs exs \<Longrightarrow> map (time_of lib) xs = map (\<lambda>e. Some (exposure e)) exs"
  by (induction rule: list_all2_induct) (auto simp: frame_result_def time_of_def)

lemma distinct_map_Some: "distinct (map Some ys) \<longleftrightarrow> distinct ys"
  by (simp add: distinct_map)

lemma check_loop_times:
  assumes "check_loop lib i xs st = Inr (exs, st')"
  shows "distinct (map exposure exs) \<longleftrightarrow> distinct (map (time_of lib) xs)"
proof -
  have "map (\<lambda>e. Some (exposure e)) exs = map Some (map exposure exs)" by simp
  with assms have "map (time_of lib) xs = map Some (map exposure exs)"
    by (simp only: frame_result_times [OF check_loop_Inr_shape])
  then show ?thesis by (simp only: distinct_map_Some)
qed

lemma check_Inr_iff:
  "(\<exists>r. check lib s = Inr r) \<longleftrightarrow>
     (\<forall>ex\<in>set (exposures s). frame_complete lib ex) \<and> same_settings lib (exposures s) \<and>
     distinct (map (time_of lib) (exposures s))"
proof (cases "check_loop lib 0 (exposures s) (check_init s)")
  case (Inl e)
  with check_loop_Inr_iff [of lib "exposures s" "check_init s"] show ?thesis
    by (auto simp: check_def)
next
  case (Inr r)
  obtain exs st where r: "r = (exs, st)" by (cases r)
  have srt: "sorted (map exposure (sort_key exposure exs))" by (rule sorted_sort_key)
  have "(\<exists>r. check lib s = Inr r) \<longleftrightarrow>
          adjacent_find (\<lambda>a b. exposure a = exposure b) (sort_key exposure exs) = None"
    using Inr r by (auto simp: check_def Let_def split: option.splits)
  also have "\<dots> \<longleftrightarrow> distinct (map exposure (sort_key exposure exs))"
    by (rule adjacent_find_None_iff_distinct [OF srt])
  also have "\<dots> \<longleftrightarrow> distinct (map exposure exs)" by (rule distinct_map_sort_key)
  also have "\<dots> \<longleftrightarrow> distinct (map (time_of lib) (exposures s))"
    using Inr r by (intro check_loop_times) simp
  finally show ?thesis
    using Inr check_loop_Inr_iff [of lib "exposures s" "check_init s"] by auto
qed

lemma not_Inr_is_error: "\<not> (\<exists>r. x = Inr r) \<Longrightarrow> is_error x"
  by (cases x) simp_all

lemma check_loop_prefix_error:
  "check_loop lib i pre st = Inr (exs, st1) \<Longrightarrow>
   check_exposure lib (i + length pre) ex st1 = Inl e \<Longrightarrow>
   check_loop lib i (pre @ ex # post) st = Inl e"
  by (simp add: check_loop_append)

lemma check_prefix_error:
  assumes "exposures s = pre @ ex # post"
    and "check_loop lib 0 pre (check_init s) = Inr (exs, st1)"
    and "check_exposure lib (length pre) ex st1 = Inl e"
  shows "check lib s = Inl e"
  using check_loop_prefix_error [of lib 0 pre "check_init s" exs st1 ex e post] assms
  by (simp add: check_def)

lemma check_loop_pos_keeps:
  "0 < i \<Longrightarrow> check_loop lib i xs st = Inr (exs, st') \<Longrightarrow>
   cs_isoSpeed st' = cs_isoSpeed st \<and> cs_aperture st' = cs_aperture st"
proof (induction xs arbitrary: i st exs)
  case Nil
  then show ?case by simp
next
  case (Cons x xs)
  from Cons.prems(2) obtain x' st1 exs1 where
    a: "check_exposure lib i x st = Inr (x', st1)" and
    b: "check_loop lib (Suc i) xs st1 = Inr (exs1, st')"
    by (auto split: sum.splits prod.splits)
  from check_exposure_InrD(5,6) [OF a] Cons.prems(1)
  have "cs_isoSpeed st1 = cs_isoSpeed st" "cs_aperture st1 = cs_aperture st" by auto
  moreover from Cons.IH [OF _ b]
  have "cs_isoSpeed st' = cs_isoSpeed st1 \<and> cs_aperture st' = cs_aperture st1" by simp
  ultimately show ?case by simp
qed

lemma check_loop_refs:
  assumes "check_loop lib 0 (x # xs) st = Inr (exs, st')"
  shows "Some (cs_isoSpeed st') = iso_of lib x \<and> Some (cs_aperture st') = fnumber_of lib x"
proof -
  from assms obtain x' st1 exs1 where
    a: "check_exposure lib 0 x st = Inr (x', st1)" and
    b: "check_loop lib (Suc 0) xs st1 = Inr (exs1, st')"
    by (auto split: sum.splits prod.splits)
  from a check_exposure_Inr_iff [of lib 0 x st] have "frame_complete lib x" by auto
  then have "iso_of lib x \<noteq> None" "fnumber_of lib x \<noteq> None" by (auto simp: frame_complete_def)
  with check_exposure_InrD(5,6) [OF a]
  have "Some (cs_isoSpeed st1) = iso_of lib x" "Some (cs_aperture st1) = fnumber_of lib x" by auto
  with check_loop_pos_keeps [OF _ b] show ?thesis by simp
qed


lemma check_exposure_iso_differs:
  "0 < i \<Longrightarrow> apex_of lib ex \<noteq> None \<Longrightarrow> shown_of lib ex \<noteq> None \<Longrightarrow>
   iso_of lib ex = Some v \<Longrightarrow> v \<noteq> cs_isoSpeed st \<Longrightarrow>
   check_exposure lib i ex st = Inl (Iso_differs (filename ex))"
  by (auto simp: check_exposure_def views split: option.splits)

lemma check_exposure_aperture_differs:
  "0 < i \<Longrightarrow> apex_of lib ex \<noteq> None \<Longrightarrow> shown_of lib ex \<noteq> None \<Longrightarrow>
   iso_of lib ex = Some (cs_isoSpeed st) \<Longrightarrow> fnumber_of lib ex = Some w \<Longrightarrow> w \<noteq> cs_aperture st \<Longrightarrow>
   check_exposure lib i ex st = Inl (Aperture_differs (filename ex))"
  by (auto simp: check_exposure_def views split: option.splits)

lemma check_exposure_no_mode_raw:
  "open_image lib (filename ex) = Some ed \<Longrightarrow> exposureMode lib ed = None \<Longrightarrow>
   findKey ed ''Exif.Photo.ShutterSpeedValue'' = Some d1 \<Longrightarrow> exposureTime lib ed = Some d2 \<Longrightarrow>
   isoSpeed lib ed = Some d3 \<Longrightarrow> fNumber lib ed = Some d4 \<Longrightarrow>
   (0 < i \<longrightarrow> cs_isoSpeed st = d_toFloat d3 \<and> cs_aperture st = d_toFloat d4) \<Longrightarrow>
   check_exposure lib i ex st = Inl (No_exposure_mode (filename ex))"
  by (cases "i = 0") (simp_all add: check_exposure_def)

lemma check_exposure_no_mode:
  assumes "open_image lib (filename ex) = Some ed" and "exposureMode lib ed = None"
    and "apex_of lib ex \<noteq> None" and "shown_of lib ex \<noteq> None"
    and "iso_of lib ex = Some v" and "fnumber_of lib ex = Some w"
    and "0 < i \<longrightarrow> cs_isoSpeed st = v \<and> cs_aperture st = w"
  shows "check_exposure lib i ex st = Inl (No_exposure_mode (filename ex))"
proof -
  from assms(1,3) obtain d1 where d1: "findKey ed ''Exif.Photo.ShutterSpeedValue'' = Some d1"
    by (auto simp: apex_of_def)
  from assms(1,4) obtain d2 where d2: "exposureTime lib ed = Some d2"
    by (auto simp: shown_of_def)
  from assms(1,5) obtain d3 where d3: "isoSpeed lib ed = Some d3" "d_toFloat d3 = v"
    by (auto simp: iso_of_def)
  from assms(1,6) obtain d4 where d4: "fNumber lib ed = Some d4" "d_toFloat d4 = w"
    by (auto simp: fnumber_of_def)
  from assms(7) d3(2) d4(2)
  have "0 < i \<longrightarrow> cs_isoSpeed st = d_toFloat d3 \<and> cs_aperture st = d_toFloat d4" by simp
  with assms(1,2) d1 d2 d3(1) d4(1) show ?thesis by (rule check_exposure_no_mode_raw)
qed

lemma check_loop_warnings:
  "check_loop lib i xs st = Inr (exs, st') \<Longrightarrow>
   Not_manual_exposure fn \<in> set (cs_warnings st') \<longleftrightarrow>
     Not_manual_exposure fn \<in> set (cs_warnings st) \<or>
     (\<exists>ex\<in>set xs. filename ex = fn \<and> mode_of lib ex \<noteq> Some ''Manual'')"
proof (induction xs arbitrary: i st exs)
  case Nil
  then show ?case by simp
next
  case (Cons x xs)
  from Cons.prems obtain x' st1 exs1 where
    a: "check_exposure lib i x st = Inr (x', st1)" and
    b: "check_loop lib (Suc i) xs st1 = Inr (exs1, st')"
    by (auto split: sum.splits prod.splits)
  from a have "Not_manual_exposure fn \<in> set (cs_warnings st1) \<longleftrightarrow>
     Not_manual_exposure fn \<in> set (cs_warnings st) \<or>
     (filename x = fn \<and> mode_of lib x \<noteq> Some ''Manual'')"
    by (auto simp: check_exposure_def views Let_def split: option.splits if_splits)
  with Cons.IH [OF b] show ?case by auto
qed

lemma check_loop_metadata:
  "check_loop lib i xs st = Inr (exs, st') \<Longrightarrow>
   cs_metadata st' = foldl (\<lambda>md ex. merge_exif (exif_of lib ex) md) (cs_metadata st) xs"
proof (induction xs arbitrary: i st exs)
  case Nil
  then show ?case by simp
next
  case (Cons x xs)
  from Cons.prems obtain x' st1 exs1 where
    a: "check_exposure lib i x st = Inr (x', st1)" and
    b: "check_loop lib (Suc i) xs st1 = Inr (exs1, st')"
    by (auto split: sum.splits prod.splits)
  from a have "cs_metadata st1 = merge_exif (exif_of lib x) (cs_metadata st)"
    by (auto simp: check_exposure_def exif_of_def Let_def split: option.splits if_splits)
  with Cons.IH [OF b] show ?case by simp
qed

subsection \<open>Order of the exposures after \<^verbatim>\<open>check\<close>\<close>

lemmas ex_defs = ex_lib_def ex_files_def ex_exif_def ex_datum_def ex_series_def Exposure_new_def
  findKey_def powr_neg_numeral

lemmas check_defs = check_def check_init_def check_exposure_def merge_datum_def

lemma count_list_adjacent:
  assumes "Suc k < length ys" and "ys ! k = ys ! Suc k"
  shows "2 \<le> count_list ys (ys ! k)"
proof -
  from assms(1) have "drop k ys = ys ! k # ys ! Suc k # drop (Suc (Suc k)) ys"
    by (simp add: Cons_nth_drop_Suc Suc_lessD)
  then have "count_list (drop k ys) (ys ! k) \<ge> 2" using assms(2) by simp
  moreover have "count_list ys (ys ! k) = count_list (take k ys @ drop k ys) (ys ! k)" by simp
  ultimately show ?thesis by (simp only: count_list_append)
qed

lemma check_duplicate_error:
  assumes loop: "check_loop lib 0 (exposures s) (check_init s) = Inr (exs, st)"
    and nd: "\<not> distinct (map (time_of lib) (exposures s))"
  shows "\<exists>u. check lib s = Inl (Duplicate_exposure u) \<and>
           2 \<le> count_list (map (time_of lib) (exposures s)) (Some u)"
proof -
  let ?srt = "sort_key exposure exs"
  let ?ys = "map exposure ?srt"
  have srt: "sorted ?ys" by (rule sorted_sort_key)
  from nd check_loop_times [OF loop] have "\<not> distinct (map exposure exs)" by simp
  with distinct_map_sort_key [of exposure exs] have "\<not> distinct ?ys" by blast
  with adjacent_find_None_iff_distinct [OF srt]
  obtain it where it: "adjacent_find (\<lambda>a b. exposure a = exposure b) ?srt = Some it" by auto
  with loop have err: "check lib s = Inl (Duplicate_exposure (exposure it))"
    by (simp add: check_def)
  from adjacent_find_SomeD [OF it] obtain k where
    k: "Suc k < length ?srt" "it = ?srt ! k" "exposure (?srt ! k) = exposure (?srt ! Suc k)"
    by auto
  then have "Suc k < length ?ys" "?ys ! k = ?ys ! Suc k" "?ys ! k = exposure it" by simp_all
  with count_list_adjacent [of k ?ys] have "2 \<le> count_list ?ys (exposure it)" by simp
  also have "count_list ?ys (exposure it) = count (mset ?ys) (exposure it)"
    by (simp only: count_mset)
  also have "mset ?ys = mset (map exposure exs)" by simp
  also have "count (mset (map exposure exs)) (exposure it) = count_list (map exposure exs) (exposure it)"
    by (simp only: count_mset)
  also have "\<dots> = count_list (map Some (map exposure exs)) (Some (exposure it))"
    by (rule count_list_map_conv [symmetric]) simp
  also have "map Some (map exposure exs) = map (time_of lib) (exposures s)"
    using frame_result_times [OF check_loop_Inr_shape [OF loop]] by simp
  finally show ?thesis using err by blast
qed

text \<open>
  C1. When \<^verbatim>\<open>check\<close> returns, \<^verbatim>\<open>exposures\<close> is strictly increasing in the derived
  exposure time. A series in which two frames, at any two positions, have the same derived
  time never passes \<^verbatim>\<open>check\<close>; when the loop over the frames raises nothing (every frame
  carries the attributes read and the settings agree), the error is the duplicate-exposure
  error, for a time that at least two frames have.
\<close>

theorem check_strictly_sorted_or_duplicate:
  "(check lib s = Inr (s', ws) \<longrightarrow>
      sorted_wrt (\<lambda>a b. exposure a < exposure b) (exposures s')) \<and>
   (i < j \<and> j < length (exposures s) \<and>
    time_of lib (exposures s ! i) = Some t \<and> time_of lib (exposures s ! j) = Some t \<longrightarrow>
      is_error (check lib s) \<and>
      ((\<forall>ex\<in>set (exposures s). frame_complete lib ex) \<and> same_settings lib (exposures s) \<longrightarrow>
         (\<exists>u. check lib s = Inl (Duplicate_exposure u) \<and>
              2 \<le> count_list (map (time_of lib) (exposures s)) (Some u))))"
proof (intro conjI impI)
  assume ok: "check lib s = Inr (s', ws)"
  then obtain exs st where
    loop: "check_loop lib 0 (exposures s) (check_init s) = Inr (exs, st)"
    by (auto simp: check_def split: sum.splits)
  with ok have none: "adjacent_find (\<lambda>a b. exposure a = exposure b) (sort_key exposure exs) = None"
    and s': "exposures s' = sort_key exposure exs"
    by (auto simp: check_def Let_def split: option.splits)
  have "sorted (map exposure (sort_key exposure exs))" by (rule sorted_sort_key)
  from adjacent_find_None_strict [OF this none] s'
  show "sorted_wrt (\<lambda>a b. exposure a < exposure b) (exposures s')" by simp
next
  assume dup: "i < j \<and> j < length (exposures s) \<and>
    time_of lib (exposures s ! i) = Some t \<and> time_of lib (exposures s ! j) = Some t"
  let ?ts = "map (time_of lib) (exposures s)"
  from dup have "i < length ?ts" "j < length ?ts" "i \<noteq> j" "?ts ! i = ?ts ! j" by simp_all
  then have nd: "\<not> distinct ?ts" by (auto simp: distinct_conv_nth)
  with check_Inr_iff [of lib s] show "is_error (check lib s)"
    by (intro not_Inr_is_error) simp
  assume "(\<forall>ex\<in>set (exposures s). frame_complete lib ex) \<and> same_settings lib (exposures s)"
  with check_loop_Inr_iff [of lib "exposures s" "check_init s"]
  obtain exs st where "check_loop lib 0 (exposures s) (check_init s) = Inr (exs, st)" by auto
  from check_duplicate_error [OF this nd]
  show "\<exists>u. check lib s = Inl (Duplicate_exposure u) \<and>
              2 \<le> count_list (map (time_of lib) (exposures s)) (Some u)" .
qed

theorem check_strictly_sorted_or_duplicate_witness:
  "(\<exists>s' ws. check ex_lib (ex_series [''a'', ''b'', ''c'']) = Inr (s', ws) \<and>
      map filename (exposures s') = [''b'', ''a'', ''c''] \<and>
      map exposure (exposures s') = [1 / 128, 1 / 32, 1 / 8] \<and>
      sorted_wrt (\<lambda>a b. exposure a < exposure b) (exposures s')) \<and>
   time_of ex_lib (exposures (ex_series [''a'', ''b'', ''d'']) ! 0) = Some (1 / 32) \<and>
   time_of ex_lib (exposures (ex_series [''a'', ''b'', ''d'']) ! 2) = Some (1 / 32) \<and>
   is_error (check ex_lib (ex_series [''a'', ''b'', ''d''])) \<and>
   check ex_lib (ex_series [''a'', ''b'', ''d'']) = Inl (Duplicate_exposure (1 / 32))"
proof -
  have "\<exists>s' ws. check ex_lib (ex_series [''a'', ''b'', ''c'']) = Inr (s', ws) \<and>
      map filename (exposures s') = [''b'', ''a'', ''c''] \<and>
      map exposure (exposures s') = [1 / 128, 1 / 32, 1 / 8]"
    by (simp add: ex_defs check_defs)
  then obtain s' ws where ok: "check ex_lib (ex_series [''a'', ''b'', ''c'']) = Inr (s', ws)"
    and names: "map filename (exposures s') = [''b'', ''a'', ''c'']"
      "map exposure (exposures s') = [1 / 128, 1 / 32, 1 / 8]"
    by auto
  from ok check_strictly_sorted_or_duplicate [where lib = ex_lib and s' = s' and ws = ws
      and s = "ex_series [''a'', ''b'', ''c'']"]
  have srt: "sorted_wrt (\<lambda>a b. exposure a < exposure b) (exposures s')" by blast
  have t0: "time_of ex_lib (exposures (ex_series [''a'', ''b'', ''d'']) ! 0) = Some (1 / 32)"
    and t2: "time_of ex_lib (exposures (ex_series [''a'', ''b'', ''d'']) ! 2) = Some (1 / 32)"
    by (simp_all add: ex_defs time_of_def apex_of_def)
  have len: "(0::nat) < 2 \<and> 2 < length (exposures (ex_series [''a'', ''b'', ''d'']))"
    by (simp add: ex_series_def)
  from check_strictly_sorted_or_duplicate [where lib = ex_lib and i = 0 and j = 2
      and t = "1 / 32" and s = "ex_series [''a'', ''b'', ''d'']"] len t0 t2
  have err: "is_error (check ex_lib (ex_series [''a'', ''b'', ''d'']))" by blast
  have dup: "check ex_lib (ex_series [''a'', ''b'', ''d'']) = Inl (Duplicate_exposure (1 / 32))"
    by (simp add: ex_defs check_defs)
  from ok names srt t0 t2 err dup show ?thesis by auto
qed

subsection \<open>ISO speed and aperture\<close>

lemma hd_in_same_settings:
  "same_settings lib xs \<Longrightarrow> ex \<in> set (tl xs) \<Longrightarrow>
   iso_of lib ex = iso_of lib (hd xs) \<and> fnumber_of lib ex = fnumber_of lib (hd xs)"
  by (cases xs) (auto simp: same_settings_def)

lemma prefix_loop_result:
  assumes "\<forall>e\<in>set pre. frame_complete lib e" and "same_settings lib pre"
  obtains exs st1 where "check_loop lib 0 pre st = Inr (exs, st1)"
  using check_loop_Inr_iff [of lib pre st] assms by auto

lemma prefix_refs:
  assumes "pre \<noteq> []" and "check_loop lib 0 pre st = Inr (exs, st1)"
  shows "Some (cs_isoSpeed st1) = iso_of lib (hd pre)"
    and "Some (cs_aperture st1) = fnumber_of lib (hd pre)"
proof -
  from assms(1) obtain x xs where "pre = x # xs" by (cases pre) auto
  with assms(2) check_loop_refs [of lib x xs st exs st1]
  show "Some (cs_isoSpeed st1) = iso_of lib (hd pre)"
    and "Some (cs_aperture st1) = fnumber_of lib (hd pre)" by simp_all
qed

text \<open>
  C4. After the loop the locals \<^verbatim>\<open>isoSpeed\<close> and \<^verbatim>\<open>aperture\<close> hold the ISO speed and
  the f-number of the first frame. A later frame whose ISO speed differs from the first
  frame's makes \<^verbatim>\<open>check\<close> throw the ISO error, one whose ISO speed agrees and whose
  f-number differs the aperture error (the frames before it having passed, and its own two
  exposure-time attributes being present); in any case a series with such a frame never
  passes. A series in which every frame carries the attributes read, all frames share the ISO
  speed and the f-number of the first, and the derived times are pairwise distinct, passes.
\<close>

theorem check_iso_aperture_reference:
  "(check_loop lib 0 (x # xs) st = Inr (exs, st') \<longrightarrow>
      Some (cs_isoSpeed st') = iso_of lib x \<and> Some (cs_aperture st') = fnumber_of lib x) \<and>
   (exposures s = pre @ ex # post \<and> pre \<noteq> [] \<and>
    (\<forall>e\<in>set pre. frame_complete lib e) \<and> same_settings lib pre \<and>
    apex_of lib ex \<noteq> None \<and> shown_of lib ex \<noteq> None \<and>
    iso_of lib ex = Some v \<and> iso_of lib (hd pre) \<noteq> Some v \<longrightarrow>
      check lib s = Inl (Iso_differs (filename ex))) \<and>
   (exposures s = pre @ ex # post \<and> pre \<noteq> [] \<and>
    (\<forall>e\<in>set pre. frame_complete lib e) \<and> same_settings lib pre \<and>
    apex_of lib ex \<noteq> None \<and> shown_of lib ex \<noteq> None \<and>
    iso_of lib ex = iso_of lib (hd pre) \<and>
    fnumber_of lib ex = Some w \<and> fnumber_of lib (hd pre) \<noteq> Some w \<longrightarrow>
      check lib s = Inl (Aperture_differs (filename ex))) \<and>
   (ex \<in> set (tl (exposures s)) \<and>
    (iso_of lib ex \<noteq> iso_of lib (hd (exposures s)) \<or>
     fnumber_of lib ex \<noteq> fnumber_of lib (hd (exposures s))) \<longrightarrow>
      is_error (check lib s)) \<and>
   ((\<forall>e\<in>set (exposures s). frame_complete lib e) \<and> same_settings lib (exposures s) \<and>
    distinct (map (time_of lib) (exposures s)) \<longrightarrow>
      (\<exists>s' ws. check lib s = Inr (s', ws)))"
proof (intro conjI impI)
  assume "check_loop lib 0 (x # xs) st = Inr (exs, st')"
  then show "Some (cs_isoSpeed st') = iso_of lib x" and "Some (cs_aperture st') = fnumber_of lib x"
    using check_loop_refs by blast+
next
  assume a: "exposures s = pre @ ex # post \<and> pre \<noteq> [] \<and>
    (\<forall>e\<in>set pre. frame_complete lib e) \<and> same_settings lib pre \<and>
    apex_of lib ex \<noteq> None \<and> shown_of lib ex \<noteq> None \<and>
    iso_of lib ex = Some v \<and> iso_of lib (hd pre) \<noteq> Some v"
  then obtain exs1 st1 where loop: "check_loop lib 0 pre (check_init s) = Inr (exs1, st1)"
    using prefix_loop_result [of pre lib "check_init s"] by blast
  from a prefix_refs(1) [OF _ loop] have "v \<noteq> cs_isoSpeed st1" by auto
  with a have "check_exposure lib (length pre) ex st1 = Inl (Iso_differs (filename ex))"
    by (intro check_exposure_iso_differs) auto
  with a loop show "check lib s = Inl (Iso_differs (filename ex))"
    by (intro check_prefix_error [of s pre ex post lib exs1 st1]) auto
next
  assume a: "exposures s = pre @ ex # post \<and> pre \<noteq> [] \<and>
    (\<forall>e\<in>set pre. frame_complete lib e) \<and> same_settings lib pre \<and>
    apex_of lib ex \<noteq> None \<and> shown_of lib ex \<noteq> None \<and>
    iso_of lib ex = iso_of lib (hd pre) \<and>
    fnumber_of lib ex = Some w \<and> fnumber_of lib (hd pre) \<noteq> Some w"
  then obtain exs1 st1 where loop: "check_loop lib 0 pre (check_init s) = Inr (exs1, st1)"
    using prefix_loop_result [of pre lib "check_init s"] by blast
  from a prefix_refs [OF _ loop]
  have "iso_of lib ex = Some (cs_isoSpeed st1)" "w \<noteq> cs_aperture st1" by auto
  with a have "check_exposure lib (length pre) ex st1 = Inl (Aperture_differs (filename ex))"
    by (intro check_exposure_aperture_differs) auto
  with a loop show "check lib s = Inl (Aperture_differs (filename ex))"
    by (intro check_prefix_error [of s pre ex post lib exs1 st1]) auto
next
  assume a: "ex \<in> set (tl (exposures s)) \<and>
    (iso_of lib ex \<noteq> iso_of lib (hd (exposures s)) \<or>
     fnumber_of lib ex \<noteq> fnumber_of lib (hd (exposures s)))"
  with hd_in_same_settings [of lib "exposures s" ex]
  have "\<not> same_settings lib (exposures s)" by blast
  with check_Inr_iff [of lib s] show "is_error (check lib s)"
    by (intro not_Inr_is_error) simp
next
  assume "(\<forall>e\<in>set (exposures s). frame_complete lib e) \<and> same_settings lib (exposures s) \<and>
    distinct (map (time_of lib) (exposures s))"
  with check_Inr_iff [of lib s] show "\<exists>s' ws. check lib s = Inr (s', ws)" by auto
qed


lemmas view_defs = views time_of_def frame_complete_def same_settings_def

theorem check_iso_aperture_reference_witness:
  "(\<exists>exs st'. check_loop ex_lib 0 (map Exposure_new [''a'', ''b'', ''c''])
        (check_init (ex_series [''a'', ''b'', ''c''])) = Inr (exs, st') \<and>
      cs_isoSpeed st' = 100 \<and> cs_aperture st' = 8) \<and>
   check ex_lib (ex_series [''a'', ''e'', ''c'']) = Inl (Iso_differs ''e'') \<and>
   check ex_lib (ex_series [''a'', ''f'', ''c'']) = Inl (Aperture_differs ''f'') \<and>
   is_error (check ex_lib (ex_series [''a'', ''b'', ''f''])) \<and>
   (\<exists>s' ws. check ex_lib (ex_series [''a'', ''b'', ''c'']) = Inr (s', ws))"
proof -
  note T = check_iso_aperture_reference
  let ?a = "Exposure_new ''a''"
  have "\<exists>exs st'. check_loop ex_lib 0 (?a # map Exposure_new [''b'', ''c''])
        (check_init (ex_series [''a'', ''b'', ''c''])) = Inr (exs, st')"
    by (simp add: ex_defs check_defs)
  then obtain exs st' where loop: "check_loop ex_lib 0 (?a # map Exposure_new [''b'', ''c''])
        (check_init (ex_series [''a'', ''b'', ''c''])) = Inr (exs, st')" by auto
  have refs: "iso_of ex_lib ?a = Some 100" "fnumber_of ex_lib ?a = Some 8"
    by (simp_all add: ex_defs view_defs)
  from loop T [where lib = ex_lib and x = ?a and xs = "map Exposure_new [''b'', ''c'']"
      and st = "check_init (ex_series [''a'', ''b'', ''c''])" and exs = exs and st' = st'] refs
  have c1: "cs_isoSpeed st' = 100 \<and> cs_aperture st' = 8" by simp
  have pre: "[?a] \<noteq> []" "\<forall>e\<in>set [?a]. frame_complete ex_lib e" "same_settings ex_lib [?a]"
    by (simp_all add: ex_defs view_defs)
  have e: "exposures (ex_series [''a'', ''e'', ''c'']) = [?a] @ Exposure_new ''e'' # [Exposure_new ''c'']"
    "apex_of ex_lib (Exposure_new ''e'') \<noteq> None" "shown_of ex_lib (Exposure_new ''e'') \<noteq> None"
    "iso_of ex_lib (Exposure_new ''e'') = Some 200" "iso_of ex_lib (hd [?a]) \<noteq> Some 200"
    by (simp_all add: ex_defs view_defs)
  from pre e T [where lib = ex_lib and s = "ex_series [''a'', ''e'', ''c'']" and pre = "[?a]"
      and ex = "Exposure_new ''e''" and post = "[Exposure_new ''c'']" and v = 200]
  have "check ex_lib (ex_series [''a'', ''e'', ''c'']) = Inl (Iso_differs (filename (Exposure_new ''e'')))"
    by blast
  then have c2: "check ex_lib (ex_series [''a'', ''e'', ''c'']) = Inl (Iso_differs ''e'')"
    by (simp add: Exposure_new_def)
  have f: "exposures (ex_series [''a'', ''f'', ''c'']) = [?a] @ Exposure_new ''f'' # [Exposure_new ''c'']"
    "apex_of ex_lib (Exposure_new ''f'') \<noteq> None" "shown_of ex_lib (Exposure_new ''f'') \<noteq> None"
    "iso_of ex_lib (Exposure_new ''f'') = iso_of ex_lib (hd [?a])"
    "fnumber_of ex_lib (Exposure_new ''f'') = Some 11" "fnumber_of ex_lib (hd [?a]) \<noteq> Some 11"
    by (simp_all add: ex_defs view_defs)
  from pre f T [where lib = ex_lib and s = "ex_series [''a'', ''f'', ''c'']" and pre = "[?a]"
      and ex = "Exposure_new ''f''" and post = "[Exposure_new ''c'']" and w = 11]
  have "check ex_lib (ex_series [''a'', ''f'', ''c'']) = Inl (Aperture_differs (filename (Exposure_new ''f'')))"
    by blast
  then have c3: "check ex_lib (ex_series [''a'', ''f'', ''c'']) = Inl (Aperture_differs ''f'')"
    by (simp add: Exposure_new_def)
  have g: "Exposure_new ''f'' \<in> set (tl (exposures (ex_series [''a'', ''b'', ''f''])))"
    "fnumber_of ex_lib (Exposure_new ''f'') \<noteq> fnumber_of ex_lib (hd (exposures (ex_series [''a'', ''b'', ''f''])))"
    by (simp_all add: ex_defs view_defs)
  from g T [where lib = ex_lib and s = "ex_series [''a'', ''b'', ''f'']" and ex = "Exposure_new ''f''"]
  have c4: "is_error (check ex_lib (ex_series [''a'', ''b'', ''f'']))" by blast
  have h: "\<forall>e\<in>set (exposures (ex_series [''a'', ''b'', ''c''])). frame_complete ex_lib e"
    "same_settings ex_lib (exposures (ex_series [''a'', ''b'', ''c'']))"
    "distinct (map (time_of ex_lib) (exposures (ex_series [''a'', ''b'', ''c''])))"
    by (simp_all add: ex_defs view_defs del: not_None_eq)
  from h T [where lib = ex_lib and s = "ex_series [''a'', ''b'', ''c'']"]
  have c5: "\<exists>s' ws. check ex_lib (ex_series [''a'', ''b'', ''c'']) = Inr (s', ws)" by blast
  from loop c1 c2 c3 c4 c5 show ?thesis by auto
qed

subsection \<open>Exposure time\<close>

lemma check_result_exposures:
  assumes "check lib s = Inr (s', ws)"
  obtains exs st where "check_loop lib 0 (exposures s) (check_init s) = Inr (exs, st)"
    and "exposures s' = sort_key exposure exs" and "metadata s' = cs_metadata st"
    and "ws = cs_warnings st"
  using assms by (auto simp: check_def Let_def split: sum.splits option.splits)


lemma apex_of_filename: "filename ex' = filename ex \<Longrightarrow> apex_of lib ex' = apex_of lib ex"
  by (simp add: apex_of_def)



subsection \<open>Exposure mode\<close>

lemma same_settings_snoc:
  assumes "same_settings lib (pre @ [ex])"
  shows "same_settings lib pre"
    and "pre \<noteq> [] \<Longrightarrow> iso_of lib ex = iso_of lib (hd pre) \<and> fnumber_of lib ex = fnumber_of lib (hd pre)"
  using assms by (cases pre; auto simp: same_settings_def)+

text \<open>
  C10. A frame without the exposure-mode attribute makes \<^verbatim>\<open>check\<close> fail: the series is
  never accepted, and the error is the missing-exposure-mode error when the frames before it
  passed and the frame itself passes the checks made before the mode is read. A frame whose
  exposure mode is present and is not rendered as "Manual" does not stop an otherwise valid
  series: \<^verbatim>\<open>check\<close> returns, and the warnings it has written name exactly the files whose
  mode is not "Manual".
\<close>

theorem check_exposure_mode_missing_or_warned:
  "(ex \<in> set (exposures s) \<and> mode_of lib ex = None \<longrightarrow> is_error (check lib s)) \<and>
   (exposures s = pre @ ex # post \<and>
    (\<forall>e\<in>set pre. frame_complete lib e) \<and> same_settings lib (pre @ [ex]) \<and>
    open_image lib (filename ex) = Some exifData \<and> exposureMode lib exifData = None \<and>
    apex_of lib ex \<noteq> None \<and> shown_of lib ex \<noteq> None \<and>
    iso_of lib ex \<noteq> None \<and> fnumber_of lib ex \<noteq> None \<longrightarrow>
      check lib s = Inl (No_exposure_mode (filename ex))) \<and>
   ((\<forall>e\<in>set (exposures s). frame_complete lib e) \<and> same_settings lib (exposures s) \<and>
    distinct (map (time_of lib) (exposures s)) \<and>
    ex \<in> set (exposures s) \<and> mode_of lib ex = Some m \<and> m \<noteq> ''Manual'' \<longrightarrow>
      (\<exists>s' ws. check lib s = Inr (s', ws) \<and> Not_manual_exposure (filename ex) \<in> set ws)) \<and>
   (check lib s = Inr (s', ws) \<longrightarrow>
      (Not_manual_exposure fn \<in> set ws \<longleftrightarrow>
         (\<exists>e\<in>set (exposures s). filename e = fn \<and> mode_of lib e \<noteq> Some ''Manual'')))"
proof -
  have warned: "Not_manual_exposure fn \<in> set ws \<longleftrightarrow>
         (\<exists>e\<in>set (exposures s). filename e = fn \<and> mode_of lib e \<noteq> Some ''Manual'')"
    if ok: "check lib s = Inr (s', ws)" for s' ws fn
  proof -
    from ok obtain exs st where
      loop: "check_loop lib 0 (exposures s) (check_init s) = Inr (exs, st)" and
      ws: "ws = cs_warnings st"
      by (rule check_result_exposures)
    from check_loop_warnings [OF loop, of fn] ws show ?thesis
      by (simp add: check_init_def)
  qed
  have missing: "is_error (check lib s)"
    if "ex \<in> set (exposures s) \<and> mode_of lib ex = None"
  proof -
    from that have "\<not> (\<forall>e\<in>set (exposures s). frame_complete lib e)"
      by (auto simp: frame_complete_def)
    with check_Inr_iff [of lib s] show ?thesis by (intro not_Inr_is_error) simp
  qed
  have first: "check lib s = Inl (No_exposure_mode (filename ex))"
    if a: "exposures s = pre @ ex # post \<and>
      (\<forall>e\<in>set pre. frame_complete lib e) \<and> same_settings lib (pre @ [ex]) \<and>
      open_image lib (filename ex) = Some exifData \<and> exposureMode lib exifData = None \<and>
      apex_of lib ex \<noteq> None \<and> shown_of lib ex \<noteq> None \<and>
      iso_of lib ex \<noteq> None \<and> fnumber_of lib ex \<noteq> None"
  proof -
    from a same_settings_snoc [of lib pre ex] have pre: "same_settings lib pre"
      and agree: "pre \<noteq> [] \<Longrightarrow> iso_of lib ex = iso_of lib (hd pre) \<and> fnumber_of lib ex = fnumber_of lib (hd pre)"
      by blast+
    from a pre obtain exs1 st1 where loop: "check_loop lib 0 pre (check_init s) = Inr (exs1, st1)"
      using prefix_loop_result [of pre lib "check_init s"] by blast
    from a obtain v w where vw: "iso_of lib ex = Some v" "fnumber_of lib ex = Some w" by auto
    have "0 < length pre \<longrightarrow> cs_isoSpeed st1 = v \<and> cs_aperture st1 = w"
    proof
      assume "0 < length pre"
      then have ne: "pre \<noteq> []" by simp
      from prefix_refs [OF ne loop] agree [OF ne] vw
      show "cs_isoSpeed st1 = v \<and> cs_aperture st1 = w" by (metis option.inject)
    qed
    with a vw have "check_exposure lib (length pre) ex st1 = Inl (No_exposure_mode (filename ex))"
      by (intro check_exposure_no_mode [of lib ex exifData v w]) auto
    with a loop show ?thesis
      by (intro check_prefix_error [of s pre ex post lib exs1 st1]) auto
  qed
  have passes: "\<exists>s' ws. check lib s = Inr (s', ws) \<and> Not_manual_exposure (filename ex) \<in> set ws"
    if a: "(\<forall>e\<in>set (exposures s). frame_complete lib e) \<and> same_settings lib (exposures s) \<and>
      distinct (map (time_of lib) (exposures s)) \<and>
      ex \<in> set (exposures s) \<and> mode_of lib ex = Some m \<and> m \<noteq> ''Manual''"
  proof -
    from a check_Inr_iff [of lib s] obtain s' ws where ok: "check lib s = Inr (s', ws)" by auto
    from a have "\<exists>e\<in>set (exposures s). filename e = filename ex \<and> mode_of lib e \<noteq> Some ''Manual''"
      by auto
    with warned [OF ok, of "filename ex"] ok show ?thesis by blast
  qed
  from warned missing first passes show ?thesis by blast
qed


theorem check_exposure_mode_missing_or_warned_witness:
  "mode_of ex_lib (Exposure_new ''h'') = None \<and>
   is_error (check ex_lib (ex_series [''a'', ''b'', ''h''])) \<and>
   check ex_lib (ex_series [''a'', ''h'', ''c'']) = Inl (No_exposure_mode ''h'') \<and>
   mode_of ex_lib (Exposure_new ''b'') = Some ''Auto'' \<and>
   (\<exists>s' ws. check ex_lib (ex_series [''a'', ''b'', ''c'']) = Inr (s', ws) \<and>
      Not_manual_exposure ''b'' \<in> set ws \<and> Not_manual_exposure ''a'' \<notin> set ws)"
proof -
  note T = check_exposure_mode_missing_or_warned
  let ?a = "Exposure_new ''a''" and ?b = "Exposure_new ''b''" and ?h = "Exposure_new ''h''"
  let ?ed = "butlast (ex_exif 4 ''1/15'' (1 / 15) 100 8 ''Manual'')"
  have h: "?h \<in> set (exposures (ex_series [''a'', ''b'', ''h'']))" "mode_of ex_lib ?h = None"
    by (simp_all add: ex_defs view_defs)
  from h T [where lib = ex_lib and s = "ex_series [''a'', ''b'', ''h'']" and ex = ?h]
  have c1: "is_error (check ex_lib (ex_series [''a'', ''b'', ''h'']))" by blast
  have g: "exposures (ex_series [''a'', ''h'', ''c'']) = [?a] @ ?h # [Exposure_new ''c'']"
    "\<forall>e\<in>set [?a]. frame_complete ex_lib e" "same_settings ex_lib ([?a] @ [?h])"
    "open_image ex_lib (filename ?h) = Some ?ed" "exposureMode ex_lib ?ed = None"
    "apex_of ex_lib ?h \<noteq> None" "shown_of ex_lib ?h \<noteq> None"
    "iso_of ex_lib ?h \<noteq> None" "fnumber_of ex_lib ?h \<noteq> None"
    by (simp_all add: ex_defs view_defs del: not_None_eq)
  from g T [where lib = ex_lib and s = "ex_series [''a'', ''h'', ''c'']" and pre = "[?a]"
      and ex = ?h and post = "[Exposure_new ''c'']" and exifData = ?ed]
  have "check ex_lib (ex_series [''a'', ''h'', ''c'']) = Inl (No_exposure_mode (filename ?h))"
    by blast
  then have c2: "check ex_lib (ex_series [''a'', ''h'', ''c'']) = Inl (No_exposure_mode ''h'')"
    by (simp add: Exposure_new_def)
  have k: "\<forall>e\<in>set (exposures (ex_series [''a'', ''b'', ''c''])). frame_complete ex_lib e"
    "same_settings ex_lib (exposures (ex_series [''a'', ''b'', ''c'']))"
    "distinct (map (time_of ex_lib) (exposures (ex_series [''a'', ''b'', ''c''])))"
    "?b \<in> set (exposures (ex_series [''a'', ''b'', ''c'']))"
    "mode_of ex_lib ?b = Some ''Auto''" "''Auto'' \<noteq> ''Manual''"
    by (simp_all add: ex_defs view_defs del: not_None_eq)
  from k T [where lib = ex_lib and s = "ex_series [''a'', ''b'', ''c'']" and ex = ?b and m = "''Auto''"]
  obtain s' ws where ok: "check ex_lib (ex_series [''a'', ''b'', ''c'']) = Inr (s', ws)"
    and wb: "Not_manual_exposure (filename ?b) \<in> set ws" by blast
  have modes: "\<not> (\<exists>e\<in>set (exposures (ex_series [''a'', ''b'', ''c''])).
      filename e = ''a'' \<and> mode_of ex_lib e \<noteq> Some ''Manual'')"
    by (simp add: ex_defs view_defs)
  from ok modes T [where lib = ex_lib and s = "ex_series [''a'', ''b'', ''c'']" and s' = s'
      and ws = ws and fn = "''a''"]
  have wa: "Not_manual_exposure ''a'' \<notin> set ws" by blast
  from wb have wb': "Not_manual_exposure ''b'' \<in> set ws" by (simp add: Exposure_new_def)
  from h(2) c1 c2 k(5) ok wb' wa show ?thesis by auto
qed

subsection \<open>The empty series\<close>

text \<open>
  C9 (amended). \<^verbatim>\<open>check\<close> does not reject an empty series: with no exposure the loop, the
  sort and the scan for duplicates do nothing, and \<^verbatim>\<open>check\<close> returns with the series
  unchanged and no warning. That \<^verbatim>\<open>exposures\<close> is not empty is not established by
  \<^verbatim>\<open>check\<close>.
\<close>

theorem check_empty_series_returns:
  "check lib (s\<lparr>exposures := []\<rparr>) = Inr (s\<lparr>exposures := []\<rparr>, [])"
  by (simp add: check_def check_init_def)

text \<open>
  C9 as stated fails on the series the locator leaves when it finds no file: \<^verbatim>\<open>check\<close>
  completes successfully on it.
\<close>

theorem check_empty_series_counterexample:
  "exposures (ex_series []) = [] \<and> \<not> is_error (check ex_lib (ex_series [])) \<and>
   check ex_lib (ex_series []) = Inr (ex_series [], [])"
  by (simp add: check_def check_init_def ex_series_def)

subsection \<open>Metadata merge\<close>

text \<open>
  C5 (amended). For one attribute, the merge of lines 76--89 stores the text of a key that is
  new, leaves the dictionary unchanged when the stored text is the attribute's text, and
  otherwise replaces the stored text by itself followed by \<open>''; ''\<close> and the new text; these
  three cases are taken when the size of the attribute's value, \<^verbatim>\<open>value().size()\<close>, is at
  most 100. An attribute whose value size exceeds 100 is skipped; the length of the text
  \<^verbatim>\<open>toString()\<close> is not looked at. After a successful \<^verbatim>\<open>check\<close> the dictionary is the
  result of merging the attributes of all frames, in discovery order, into the dictionary
  \<^verbatim>\<open>check\<close> started from.
\<close>

theorem merge_datum_by_value_size:
  "(d_value_size it \<le> 100 \<and> md (d_key it) = None \<longrightarrow>
      merge_datum it md = md(d_key it \<mapsto> d_toString it)) \<and>
   (md (d_key it) = Some (d_toString it) \<longrightarrow> merge_datum it md = md) \<and>
   (d_value_size it \<le> 100 \<and> md (d_key it) = Some current \<and> current \<noteq> d_toString it \<longrightarrow>
      merge_datum it md = md(d_key it \<mapsto> current @ ''; '' @ d_toString it)) \<and>
   (100 < d_value_size it \<longrightarrow> merge_datum it md = md) \<and>
   (check lib s = Inr (s', ws) \<longrightarrow>
      metadata s' = foldl (\<lambda>m ex. merge_exif (exif_of lib ex) m) (metadata s) (exposures s))"
proof (intro conjI impI)
  assume ok: "check lib s = Inr (s', ws)"
  then obtain exs st where
    loop: "check_loop lib 0 (exposures s) (check_init s) = Inr (exs, st)" and
    md: "metadata s' = cs_metadata st"
    by (rule check_result_exposures)
  from check_loop_metadata [OF loop] md
  show "metadata s' = foldl (\<lambda>m ex. merge_exif (exif_of lib ex) m) (metadata s) (exposures s)"
    by (simp add: check_init_def)
qed (auto simp: merge_datum_def)

theorem merge_datum_by_value_size_witness:
  "merge_datum (ex_datum ''k'' 3 ''one'' 1 ''one'') Map.empty = [''k'' \<mapsto> ''one''] \<and>
   merge_datum (ex_datum ''k'' 3 ''one'' 1 ''one'') [''k'' \<mapsto> ''one''] = [''k'' \<mapsto> ''one''] \<and>
   merge_datum (ex_datum ''k'' 3 ''two'' 2 ''two'') [''k'' \<mapsto> ''one''] = [''k'' \<mapsto> ''one; two''] \<and>
   merge_datum ex_huge_datum [''k'' \<mapsto> ''one''] = [''k'' \<mapsto> ''one''] \<and>
   (\<exists>s' ws. check ex_lib (ex_series [''a'', ''b'']) = Inr (s', ws) \<and>
      metadata s' ''Exif.Photo.ExposureTime'' = Some ''1/30; 1/125'' \<and>
      metadata s' ''Exif.Photo.FNumber'' = Some ''fnum'')"
proof -
  note T = merge_datum_by_value_size
  let ?one = "ex_datum ''k'' 3 ''one'' 1 ''one''" and ?two = "ex_datum ''k'' 3 ''two'' 2 ''two''"
  have a: "d_value_size ?one \<le> 100" "Map.empty (d_key ?one) = None"
    "d_key ?one = ''k''" "d_toString ?one = ''one''"
    by (simp_all add: ex_datum_def)
  from a(1,2) T [where it = ?one and md = Map.empty]
  have "merge_datum ?one Map.empty = Map.empty(d_key ?one \<mapsto> d_toString ?one)" by blast
  with a(3,4) have c1: "merge_datum ?one Map.empty = [''k'' \<mapsto> ''one'']" by simp
  have "[''k'' \<mapsto> ''one''] (d_key ?one) = Some (d_toString ?one)" by (simp add: ex_datum_def)
  with T [where it = ?one and md = "[''k'' \<mapsto> ''one'']"]
  have c2: "merge_datum ?one [''k'' \<mapsto> ''one''] = [''k'' \<mapsto> ''one'']" by blast
  have b: "d_value_size ?two \<le> 100" "[''k'' \<mapsto> ''one''] (d_key ?two) = Some ''one''"
    "''one'' \<noteq> d_toString ?two" "d_key ?two = ''k''" "d_toString ?two = ''two''"
    by (simp_all add: ex_datum_def)
  from b(1,2,3) T [where it = ?two and md = "[''k'' \<mapsto> ''one'']" and current = "''one''"]
  have "merge_datum ?two [''k'' \<mapsto> ''one''] =
      [''k'' \<mapsto> ''one''](d_key ?two \<mapsto> ''one'' @ ''; '' @ d_toString ?two)" by blast
  with b(4,5) have c3: "merge_datum ?two [''k'' \<mapsto> ''one''] = [''k'' \<mapsto> ''one; two'']" by simp
  have "100 < d_value_size ex_huge_datum" by (simp add: ex_huge_datum_def ex_datum_def)
  with T [where it = ex_huge_datum and md = "[''k'' \<mapsto> ''one'']"]
  have c4: "merge_datum ex_huge_datum [''k'' \<mapsto> ''one''] = [''k'' \<mapsto> ''one'']" by blast
  have "\<exists>s' ws. check ex_lib (ex_series [''a'', ''b'']) = Inr (s', ws)"
    by (simp add: ex_defs check_defs)
  then obtain s' ws where ok: "check ex_lib (ex_series [''a'', ''b'']) = Inr (s', ws)" by auto
  from ok T [where lib = ex_lib and s = "ex_series [''a'', ''b'']" and s' = s' and ws = ws]
  have "metadata s' = foldl (\<lambda>m ex. merge_exif (exif_of ex_lib ex) m)
      (metadata (ex_series [''a'', ''b''])) (exposures (ex_series [''a'', ''b'']))" by blast
  then have c5: "metadata s' ''Exif.Photo.ExposureTime'' = Some ''1/30; 1/125''"
    "metadata s' ''Exif.Photo.FNumber'' = Some ''fnum''"
    by (simp_all add: ex_defs exif_of_def merge_datum_def)
  from c1 c2 c3 c4 ok c5 show ?thesis by auto
qed

text \<open>
  C5 as stated fails for an attribute whose text is longer than 100 characters while the size
  of its value is not (25 values of four bytes each, say, print as more than 100 characters):
  it is merged, not skipped.
\<close>

theorem merge_long_text_counterexample:
  "100 < length (d_toString ex_long_datum) \<and>
   merge_datum ex_long_datum Map.empty \<noteq> Map.empty \<and>
   merge_datum ex_long_datum Map.empty (d_key ex_long_datum) = Some (d_toString ex_long_datum)"
  by (simp add: ex_long_datum_def ex_datum_def merge_datum_def length_concat sum_list_replicate)

subsection \<open>File discovery\<close>







subsection \<open>Rounding to nearest\<close>

text \<open>
  What \<open>fl\<close> is: \<open>binade x\<close> is the exponent of the binade of a positive \<open>x\<close>, the result
  of \<open>fl p x\<close> is an integer multiple of the unit \<open>pow2 (binade \<bar>x\<bar> - (p - 1))\<close>, it is
  no farther from \<open>x\<close> than half of this unit, and a tie goes to the even multiple.
\<close>

lemma pow2_pos: "0 < pow2 k"
  by (simp add: pow2_def)

lemma pow2_Suc: "pow2 (k + 1) = 2 * pow2 k"
proof (cases "0 \<le> k")
  case True
  then show ?thesis by (simp add: pow2_def nat_add_distrib)
next
  case False
  then have "nat (- k) = Suc (nat (- (k + 1)))" by simp
  with False show ?thesis by (simp add: pow2_def)
qed

lemma pow2_pred: "pow2 (k - 1) = pow2 k / 2"
  using pow2_Suc [of "k - 1"] by simp

lemma binade_bounds:
  "0 < x \<Longrightarrow> pow2 (binade x) \<le> x \<and> x < pow2 (binade x + 1)"
proof (induction x rule: binade.induct)
  case (1 x)
  show ?case
  proof (cases "x < 1")
    case True
    with "1.prems" have b: "binade x = binade (2 * x) - 1"
      by (subst binade.simps) simp
    from "1.IH"(1) "1.prems" True
    have "pow2 (binade (2 * x)) \<le> 2 * x \<and> 2 * x < pow2 (binade (2 * x) + 1)" by simp
    with b show ?thesis by (simp add: pow2_pred pow2_Suc)
  next
    case False
    show ?thesis
    proof (cases "2 \<le> x")
      case True
      with "1.prems" False have b: "binade x = binade (x / 2) + 1"
        by (subst binade.simps) simp
      from "1.IH"(2) "1.prems" False True
      have "pow2 (binade (x / 2)) \<le> x / 2 \<and> x / 2 < pow2 (binade (x / 2) + 1)" by simp
      moreover from b have "pow2 (binade x) = 2 * pow2 (binade (x / 2))"
        by (simp only: pow2_Suc)
      moreover from b have "pow2 (binade x + 1) = 2 * pow2 (binade (x / 2) + 1)"
        by (simp only: pow2_Suc)
      ultimately show ?thesis by simp
    next
      case no: False
      with "1.prems" False have "binade x = 0" by (subst binade.simps) simp
      with False no show ?thesis by (simp add: pow2_def)
    qed
  qed
qed

lemma round_even_nearest: "\<bar>real_of_int (round_even x) - x\<bar> \<le> 1 / 2"
  by (simp add: round_even_def)

lemma round_even_ties:
  "round_even (1 / 2) = 0 \<and> round_even (3 / 2) = 2 \<and> round_even (5 / 2) = 2 \<and>
   round_even (- (1 / 2)) = 0 \<and> round_even (- (3 / 2)) = - 2"
  by code_simp

lemma fl_multiple:
  "\<exists>n. fl p x = real_of_int n * pow2 (binade \<bar>x\<bar> - (int p - 1))"
  by (cases "x = 0") (auto simp: fl_def intro: exI [of _ 0])

lemma fl_nearest:
  "\<bar>fl p x - x\<bar> \<le> pow2 (binade \<bar>x\<bar> - (int p - 1)) / 2"
proof (cases "x = 0")
  case True
  then show ?thesis using pow2_pos [of "binade \<bar>x\<bar> - (int p - 1)"] by (simp add: fl_def)
next
  case False
  let ?u = "pow2 (binade \<bar>x\<bar> - (int p - 1))"
  have u: "0 < ?u" by (rule pow2_pos)
  have "fl p x - x = (real_of_int (round_even (x / ?u)) - x / ?u) * ?u"
    using False u by (simp add: fl_def algebra_simps)
  then have "\<bar>fl p x - x\<bar> = \<bar>real_of_int (round_even (x / ?u)) - x / ?u\<bar> * ?u"
    using u by (simp add: abs_mult)
  also have "\<dots> \<le> 1 / 2 * ?u"
    using round_even_nearest [of "x / ?u"] u by (intro mult_right_mono) auto
  finally show ?thesis by simp
qed


subsection \<open>Normalisation\<close>

lemma normalize_row_Inr:
  "normalize_row data offset factor src n = Inr row \<Longrightarrow>
   length row = n \<and>
   (\<forall>x<n. src + x < length data \<and>
      row ! x = fl 24 (fl 24 (real_of_int (uint (data ! (src + x)) - uint offset)) * factor))"
proof (induction n arbitrary: src row)
  case 0
  then show ?case by simp
next
  case (Suc n)
  from Suc.prems obtain rest where
    inb: "src < length data" and
    rest: "normalize_row data offset factor (Suc src) n = Inr rest" and
    row: "row = fl 24 (fl 24 (real_of_int (uint (data ! src) - uint offset)) * factor) # rest"
    by (auto split: if_splits sum.splits)
  from Suc.IH [OF rest] have len: "length rest = n" and
    ih: "\<And>x. x < n \<Longrightarrow> Suc src + x < length data \<and>
      rest ! x = fl 24 (fl 24 (real_of_int (uint (data ! (Suc src + x)) - uint offset)) * factor)"
    by auto
  have "src + x < length data \<and>
      row ! x = fl 24 (fl 24 (real_of_int (uint (data ! (src + x)) - uint offset)) * factor)"
    if "x < Suc n" for x
  proof (cases x)
    case 0
    with inb row show ?thesis by simp
  next
    case (Suc x')
    with that ih [of x'] row show ?thesis by simp
  qed
  with len row show ?case by simp
qed

lemma normalize_rows_Inr:
  "normalize_rows data offset factor p w y n = Inr img \<Longrightarrow>
   length img = n * w \<and>
   (\<forall>r<n. \<forall>x<w. (y + r) * p + x < length data \<and>
      img ! (r * w + x) =
        fl 24 (fl 24 (real_of_int (uint (data ! ((y + r) * p + x)) - uint offset)) * factor))"
proof (induction n arbitrary: y img)
  case 0
  then show ?case by simp
next
  case (Suc n)
  from Suc.prems obtain row rest where
    row: "normalize_row data offset factor (y * p) w = Inr row" and
    rest: "normalize_rows data offset factor p w (Suc y) n = Inr rest" and
    img: "img = row @ rest"
    by (auto split: sum.splits)
  from normalize_row_Inr [OF row] have lrow: "length row = w" and
    hrow: "\<And>x. x < w \<Longrightarrow> y * p + x < length data \<and>
      row ! x = fl 24 (fl 24 (real_of_int (uint (data ! (y * p + x)) - uint offset)) * factor)"
    by auto
  from Suc.IH [OF rest] have lrest: "length rest = n * w" and
    hrest: "\<And>r x. r < n \<Longrightarrow> x < w \<Longrightarrow> (Suc y + r) * p + x < length data \<and>
      rest ! (r * w + x) =
        fl 24 (fl 24 (real_of_int (uint (data ! ((Suc y + r) * p + x)) - uint offset)) * factor)"
    by auto
  have "(y + r) * p + x < length data \<and>
      img ! (r * w + x) =
        fl 24 (fl 24 (real_of_int (uint (data ! ((y + r) * p + x)) - uint offset)) * factor)"
    if "r < Suc n" "x < w" for r x
  proof (cases r)
    case 0
    with that hrow [of x] img lrow show ?thesis by (simp add: nth_append)
  next
    case (Suc r')
    with that have r': "r' < n" by simp
    have "img ! (r * w + x) = rest ! (r' * w + x)"
      using img lrow Suc by (simp add: nth_append)
    with hrest [OF r' that(2)] Suc show ?thesis by simp
  qed
  with lrow lrest img show ?case by simp
qed

lemma normalize_image_Inr:
  assumes "normalize_image raw = Inr img"
  shows "whitePoint raw \<noteq> uint (word_of_int (blackLevel raw) :: 16 word)"
    and "length img = dim_x raw * dim_y raw"
    and "y < dim_y raw \<Longrightarrow> x < dim_x raw \<Longrightarrow>
      y * (pitch raw div 2) + x < length (raw_data raw) \<and>
      img ! (y * dim_x raw + x) =
        fl 24 (fl 24 (real_of_int (uint (raw_data raw ! (y * (pitch raw div 2) + x))
                                   - uint (word_of_int (blackLevel raw) :: 16 word)))
               * fl 24 (1 / fl 24 (real_of_int
                   (whitePoint raw - uint (word_of_int (blackLevel raw) :: 16 word)))))"
proof -
  let ?offset = "word_of_int (blackLevel raw) :: 16 word"
  let ?factor = "fl 24 (1 / fl 24 (real_of_int (whitePoint raw - uint ?offset)))"
  from assms show wb: "whitePoint raw \<noteq> uint ?offset"
    by (auto simp: normalize_image_def Let_def split: if_splits)
  with assms have rows:
    "normalize_rows (raw_data raw) ?offset ?factor (pitch raw div 2) (dim_x raw) 0 (dim_y raw)
       = Inr img"
    by (auto simp: normalize_image_def Let_def split: if_splits)
  from normalize_rows_Inr [OF rows] show "length img = dim_x raw * dim_y raw"
    by (simp add: mult.commute)
  assume "y < dim_y raw" "x < dim_x raw"
  with normalize_rows_Inr [OF rows]
  show "y * (pitch raw div 2) + x < length (raw_data raw) \<and>
      img ! (y * dim_x raw + x) =
        fl 24 (fl 24 (real_of_int (uint (raw_data raw ! (y * (pitch raw div 2) + x))
                                   - uint ?offset)) * ?factor)"
    by simp
qed

lemma load_exposure_InrD:
  assumes "load_exposure dec ex h = Inr (ex', h', w, ht)"
  obtains raw img where "dec (filename ex) = Decoded raw"
    and "subsampling_x raw = 1" and "subsampling_y raw = 1"
    and "dataType raw = TYPE_USHORT16" and "isCFA raw"
    and "normalize_image raw = Inr img"
    and "ex' = ex\<lparr>image_ptr := Some (length h)\<rparr>" and "h' = h @ [Some img]"
    and "w = dim_x raw" and "ht = dim_y raw"
  using assms
  by (auto simp: load_exposure_def new_array_def split: decode_result.splits if_splits sum.splits)

lemma load_loop_frames:
  "load_loop dec i xs (w, ht, h) = Inr (exs, w', ht', h') \<Longrightarrow>
   length exs = length xs \<and> length h' = length h + length xs \<and> take (length h) h' = h \<and>
   (\<forall>k<length xs. \<exists>raw img.
      dec (filename (xs ! k)) = Decoded raw \<and> normalize_image raw = Inr img \<and>
      exs ! k = (xs ! k)\<lparr>image_ptr := Some (length h + k)\<rparr> \<and>
      h' ! (length h + k) = Some img)"
proof (induction xs arbitrary: i w ht h exs)
  case Nil
  then show ?case by simp
next
  case (Cons x xs)
  from Cons.prems obtain x' h1 w1 ht1 exs1 where
    a: "load_exposure dec x h = Inr (x', h1, w1, ht1)" and
    b: "load_loop dec (Suc i) xs (if i = 0 then w1 else w, if i = 0 then ht1 else ht, h1)
          = Inr (exs1, w', ht', h')" and
    c: "exs = x' # exs1"
    by (auto split: sum.splits prod.splits)
  from a obtain raw img where x: "dec (filename x) = Decoded raw" "normalize_image raw = Inr img"
    "x' = x\<lparr>image_ptr := Some (length h)\<rparr>" "h1 = h @ [Some img]"
    by (elim load_exposure_InrD) simp
  from Cons.IH [OF b] have len: "length exs1 = length xs" "length h' = length h1 + length xs"
    and pre: "take (length h1) h' = h1"
    and ih: "\<And>k. k < length xs \<Longrightarrow> \<exists>raw img.
      dec (filename (xs ! k)) = Decoded raw \<and> normalize_image raw = Inr img \<and>
      exs1 ! k = (xs ! k)\<lparr>image_ptr := Some (length h1 + k)\<rparr> \<and>
      h' ! (length h1 + k) = Some img"
    by auto
  from pre x(4) have app: "h' = (h @ [Some img]) @ drop (length h1) h'"
    by (metis append_take_drop_id)
  then have pre': "take (length h) h' = h"
    by (metis append.assoc append_eq_conv_conj)
  from app have first: "h' ! length h = Some img"
    by (metis append.assoc nth_append_length append_Cons)
  have "\<exists>raw img.
      dec (filename ((x # xs) ! k)) = Decoded raw \<and> normalize_image raw = Inr img \<and>
      exs ! k = ((x # xs) ! k)\<lparr>image_ptr := Some (length h + k)\<rparr> \<and>
      h' ! (length h + k) = Some img"
    if "k < length (x # xs)" for k
  proof (cases k)
    case 0
    with x c first show ?thesis by auto
  next
    case (Suc k')
    with that have "k' < length xs" by simp
    from ih [OF this] Suc c x(4) show ?thesis by simp
  qed
  with len c x(4) pre' show ?case by simp
qed

lemma load_Inr_loop:
  assumes "load dec sel (s, h) = Inr (s', h')"
  obtains exs w ht h1 where
    "load_loop dec 0 (exposures s) (width s, height s, h) = Inr (exs, w, ht, h1)"
    and "exposures s' = exs" and "width s' = w" and "height s' = ht"
    and "length h' = Suc (length h1)" and "take (length h1) h' = h1"
proof -
  from assms obtain exs w ht h1 where
    loop: "load_loop dec 0 (exposures s) (width s, height s, h) = Inr (exs, w, ht, h1)"
    by (auto simp: load_def split: sum.splits prod.splits)
  with assms have "exposures s' = exs \<and> width s' = w \<and> height s' = ht \<and>
      length h' = Suc (length h1) \<and> take (length h1) h' = h1"
    by (auto simp: load_def Let_def new_array_def read_array_def write_array_def delete_array_def
        split: if_splits option.splits)
  with loop that show ?thesis by blast
qed

text \<open>
  The values of lines 214, 215 and 223 for the example decoder: the black level 100, the
  white point 4100, and the samples 2100 and 3100.
\<close>

lemma ex_offset: "uint (word_of_int 100 :: 16 word) = 100"
  by simp

lemma ex_sample: "uint (3100 :: 16 word) = 3100"
  by simp

lemma ex_factor: "fl 24 (1 / fl 24 (real_of_int (4100 - 100))) = 8589935 / 34359738368"
  by code_simp

lemma ex_pixel_2100:
  "fl 24 (fl 24 (real_of_int (2100 - 100)) * fl 24 (1 / fl 24 (real_of_int (4100 - 100))))
     = 1 / 2"
  by code_simp

lemma ex_pixel_3100:
  "fl 24 (fl 24 (real_of_int (3100 - 100)) * fl 24 (1 / fl 24 (real_of_int (4100 - 100))))
     = 12582913 / 16777216"
  by code_simp

text \<open>
  \<^verbatim>\<open>load\<close> on the example series \<open>b\<close>, \<open>a\<close>, \<open>c\<close> and on the series of \<open>c\<close> alone, with
  an empty heap: the names, times and image addresses of the exposures, the dimensions, and
  the heap that is left.
\<close>

lemma ex_load_checked:
  "(case load ex_dec ex_nth_element (ex_checked, []) of
      Inl e \<Rightarrow> None
    | Inr (s', h') \<Rightarrow>
        Some (map filename (exposures s'), map exposure (exposures s'),
              map image_ptr (exposures s'), width s', height s', h'))
   = Some ([''b'', ''a'', ''c''], [1 / 128, 1 / 32, 1 / 8], [Some 0, Some 1, Some 2], 2, 2,
           [Some [0, 1 / 4, 1 / 16, 13421773 / 536870912], Some [0, 1 / 2, 1 / 4, 1 / 8],
            Some [1 / 2, 1, 9227469 / 8388608, 12582913 / 16777216], None])"
  by code_simp

lemma ex_load_c:
  "(case load ex_dec ex_nth_element (ex_series [''c''], []) of
      Inl e \<Rightarrow> None
    | Inr (s', h') \<Rightarrow> Some (map image_ptr (exposures s'), h'))
   = Some ([Some 0], [Some [1 / 2, 1, 9227469 / 8388608, 12582913 / 16777216], None])"
  by code_simp

text \<open>
  C2 (amended). When \<^verbatim>\<open>load\<close> returns, every frame \<open>k\<close> of the series was decoded, and its
  exposure, otherwise unchanged, points to an array that did not exist before the call and
  that no other exposure of the series points to, holding \<open>width * height\<close> values for the
  dimensions of the decoded image. With \<^verbatim>\<open>offset\<close> the black level converted to
  \<^verbatim>\<open>uint16_t\<close> and \<^verbatim>\<open>factor\<close> the \<^verbatim>\<open>float\<close> quotient of 1 by the white point minus
  \<^verbatim>\<open>offset\<close> (lines 214--215), the value at row \<open>y\<close> and column \<open>x\<close>, stored at
  \<open>y * width + x\<close>, is the \<^verbatim>\<open>float\<close> product of \<^verbatim>\<open>factor\<close> with the sample at
  \<open>y * (pitch / 2) + x\<close> of the decoder's buffer minus \<^verbatim>\<open>offset\<close> (line 223). Both the
  quotient and the product are rounded to \<^verbatim>\<open>float\<close>, so the value is in general not the
  exact quotient of the two differences; for the black level 100 and the white point 4100
  the sample 2100 does give exactly \<open>1 / 2\<close>.
\<close>

theorem load_normalizes_every_frame:
  "load dec sel (s, h) = Inr (s', h') \<and> k < length (exposures s) \<longrightarrow>
     (\<exists>raw img a offset factor.
        dec (filename (exposures s ! k)) = Decoded raw \<and>
        offset = (word_of_int (blackLevel raw) :: 16 word) \<and>
        whitePoint raw \<noteq> uint offset \<and>
        factor = fl 24 (1 / fl 24 (real_of_int (whitePoint raw - uint offset))) \<and>
        length (exposures s') = length (exposures s) \<and>
        exposures s' ! k = (exposures s ! k)\<lparr>image_ptr := Some a\<rparr> \<and>
        read_array h a = None \<and>
        (\<forall>j<length (exposures s). j \<noteq> k \<longrightarrow> image_ptr (exposures s' ! j) \<noteq> Some a) \<and>
        read_array h' a = Some img \<and>
        length img = dim_x raw * dim_y raw \<and>
        (\<forall>y<dim_y raw. \<forall>x<dim_x raw.
           y * (pitch raw div 2) + x < length (raw_data raw) \<and>
           img ! (y * dim_x raw + x) =
             fl 24 (fl 24 (real_of_int
                      (uint (raw_data raw ! (y * (pitch raw div 2) + x)) - uint offset))
                    * factor) \<and>
           (blackLevel raw = 100 \<and> whitePoint raw = 4100 \<and>
            raw_data raw ! (y * (pitch raw div 2) + x) = 2100 \<longrightarrow>
              img ! (y * dim_x raw + x) = 1 / 2)))"
proof (intro impI)
  assume a: "load dec sel (s, h) = Inr (s', h') \<and> k < length (exposures s)"
  then have k: "k < length (exposures s)" by simp
  from a obtain exs w ht h1 where
    loop: "load_loop dec 0 (exposures s) (width s, height s, h) = Inr (exs, w, ht, h1)" and
    exs: "exposures s' = exs" and
    h': "length h' = Suc (length h1)" "take (length h1) h' = h1"
    by (elim conjE load_Inr_loop)
  from load_loop_frames [OF loop] k obtain raw img where
    len: "length h1 = length h + length (exposures s)" and
    dec: "dec (filename (exposures s ! k)) = Decoded raw" and
    norm: "normalize_image raw = Inr img" and
    ex: "exs ! k = (exposures s ! k)\<lparr>image_ptr := Some (length h + k)\<rparr>" and
    at: "h1 ! (length h + k) = Some img"
    by blast
  from load_loop_frames [OF loop] have n: "length exs = length (exposures s)" and
    others: "\<And>j. j < length (exposures s) \<Longrightarrow>
      exs ! j = (exposures s ! j)\<lparr>image_ptr := Some (length h + j)\<rparr>"
    by auto
  define a where "a = length h + k"
  define offset where "offset = (word_of_int (blackLevel raw) :: 16 word)"
  define factor where "factor = fl 24 (1 / fl 24 (real_of_int (whitePoint raw - uint offset)))"
  have fresh: "read_array h a = None"
    by (simp add: read_array_def a_def)
  from len k have in1: "length h + k < length h1" by simp
  with h'(2) have "h' ! (length h + k) = h1 ! (length h + k)"
    by (metis nth_take)
  with in1 h'(1) at have rd: "read_array h' a = Some img"
    by (simp add: read_array_def a_def)
  from n exs have n': "length (exposures s') = length (exposures s)" by simp
  have own: "\<forall>j<length (exposures s). j \<noteq> k \<longrightarrow> image_ptr (exposures s' ! j) \<noteq> Some a"
    using others exs by (simp add: a_def)
  from normalize_image_Inr(1) [OF norm] have wb: "whitePoint raw \<noteq> uint offset"
    by (simp add: offset_def)
  from normalize_image_Inr(2) [OF norm] have size: "length img = dim_x raw * dim_y raw" .
  have px: "y * (pitch raw div 2) + x < length (raw_data raw) \<and>
      img ! (y * dim_x raw + x) =
        fl 24 (fl 24 (real_of_int
                 (uint (raw_data raw ! (y * (pitch raw div 2) + x)) - uint offset))
               * factor) \<and>
      (blackLevel raw = 100 \<and> whitePoint raw = 4100 \<and>
       raw_data raw ! (y * (pitch raw div 2) + x) = 2100 \<longrightarrow>
         img ! (y * dim_x raw + x) = 1 / 2)"
    if yx: "y < dim_y raw" "x < dim_x raw" for y x
  proof -
    from normalize_image_Inr(3) [OF norm yx]
    have inb: "y * (pitch raw div 2) + x < length (raw_data raw)" and
      v: "img ! (y * dim_x raw + x) =
        fl 24 (fl 24 (real_of_int
                 (uint (raw_data raw ! (y * (pitch raw div 2) + x)) - uint offset))
               * factor)"
      by (simp_all add: offset_def factor_def)
    have "img ! (y * dim_x raw + x) = 1 / 2"
      if lv: "blackLevel raw = 100 \<and> whitePoint raw = 4100 \<and>
        raw_data raw ! (y * (pitch raw div 2) + x) = 2100"
    proof -
      from lv have "uint offset = 100" by (simp add: offset_def)
      moreover from lv have "uint (raw_data raw ! (y * (pitch raw div 2) + x)) = 2100" by simp
      ultimately have "img ! (y * dim_x raw + x) =
          fl 24 (fl 24 (real_of_int (2100 - 100))
                 * fl 24 (1 / fl 24 (real_of_int (4100 - 100))))"
        using v lv by (simp only: factor_def)
      then show ?thesis by (simp only: ex_pixel_2100)
    qed
    with inb v show ?thesis by blast
  qed
  from ex exs have ex': "exposures s' ! k = (exposures s ! k)\<lparr>image_ptr := Some a\<rparr>"
    by (simp add: a_def)
  from px have px_all: "\<forall>y<dim_y raw. \<forall>x<dim_x raw.
           y * (pitch raw div 2) + x < length (raw_data raw) \<and>
           img ! (y * dim_x raw + x) =
             fl 24 (fl 24 (real_of_int
                      (uint (raw_data raw ! (y * (pitch raw div 2) + x)) - uint offset))
                    * factor) \<and>
           (blackLevel raw = 100 \<and> whitePoint raw = 4100 \<and>
            raw_data raw ! (y * (pitch raw div 2) + x) = 2100 \<longrightarrow>
              img ! (y * dim_x raw + x) = 1 / 2)"
    by blast
  have all: "dec (filename (exposures s ! k)) = Decoded raw \<and>
        offset = (word_of_int (blackLevel raw) :: 16 word) \<and>
        whitePoint raw \<noteq> uint offset \<and>
        factor = fl 24 (1 / fl 24 (real_of_int (whitePoint raw - uint offset))) \<and>
        length (exposures s') = length (exposures s) \<and>
        exposures s' ! k = (exposures s ! k)\<lparr>image_ptr := Some a\<rparr> \<and>
        read_array h a = None \<and>
        (\<forall>j<length (exposures s). j \<noteq> k \<longrightarrow> image_ptr (exposures s' ! j) \<noteq> Some a) \<and>
        read_array h' a = Some img \<and>
        length img = dim_x raw * dim_y raw \<and>
        (\<forall>y<dim_y raw. \<forall>x<dim_x raw.
           y * (pitch raw div 2) + x < length (raw_data raw) \<and>
           img ! (y * dim_x raw + x) =
             fl 24 (fl 24 (real_of_int
                      (uint (raw_data raw ! (y * (pitch raw div 2) + x)) - uint offset))
                    * factor) \<and>
           (blackLevel raw = 100 \<and> whitePoint raw = 4100 \<and>
            raw_data raw ! (y * (pitch raw div 2) + x) = 2100 \<longrightarrow>
              img ! (y * dim_x raw + x) = 1 / 2))"
    by (intro conjI dec offset_def wb factor_def n' ex' fresh own rd size px_all)
  show "\<exists>raw img a offset factor.
        dec (filename (exposures s ! k)) = Decoded raw \<and>
        offset = (word_of_int (blackLevel raw) :: 16 word) \<and>
        whitePoint raw \<noteq> uint offset \<and>
        factor = fl 24 (1 / fl 24 (real_of_int (whitePoint raw - uint offset))) \<and>
        length (exposures s') = length (exposures s) \<and>
        exposures s' ! k = (exposures s ! k)\<lparr>image_ptr := Some a\<rparr> \<and>
        read_array h a = None \<and>
        (\<forall>j<length (exposures s). j \<noteq> k \<longrightarrow> image_ptr (exposures s' ! j) \<noteq> Some a) \<and>
        read_array h' a = Some img \<and>
        length img = dim_x raw * dim_y raw \<and>
        (\<forall>y<dim_y raw. \<forall>x<dim_x raw.
           y * (pitch raw div 2) + x < length (raw_data raw) \<and>
           img ! (y * dim_x raw + x) =
             fl 24 (fl 24 (real_of_int
                      (uint (raw_data raw ! (y * (pitch raw div 2) + x)) - uint offset))
                    * factor) \<and>
           (blackLevel raw = 100 \<and> whitePoint raw = 4100 \<and>
            raw_data raw ! (y * (pitch raw div 2) + x) = 2100 \<longrightarrow>
              img ! (y * dim_x raw + x) = 1 / 2))"
    by (rule exI [of _ raw], rule exI [of _ img], rule exI [of _ a], rule exI [of _ offset],
        rule exI [of _ factor])
      (rule all)
qed

theorem load_normalizes_every_frame_witness:
  "length (exposures ex_checked) = 3 \<and>
   ex_dec (filename (exposures ex_checked ! 2)) = Decoded (ex_raw [2100, 4100, 7, 4500, 3100, 7]) \<and>
   (\<exists>s' h' img. load ex_dec ex_nth_element (ex_checked, []) = Inr (s', h') \<and>
      image_ptr (exposures s' ! 2) = Some 2 \<and> read_array h' 2 = Some img \<and> length img = 4 \<and>
      img ! (0 * 2 + 0) = 1 / 2 \<and> img ! (1 * 2 + 1) = 12582913 / 16777216)"
proof -
  note T = load_normalizes_every_frame
  let ?raw = "ex_raw [2100, 4100, 7, 4500, 3100, 7]"
  have n: "length (exposures ex_checked) = 3" by (simp add: ex_checked_def)
  have dec: "ex_dec (filename (exposures ex_checked ! 2)) = Decoded ?raw"
    by (simp add: ex_checked_def ex_dec_def)
  have "\<exists>s' h'. load ex_dec ex_nth_element (ex_checked, []) = Inr (s', h') \<and>
      map image_ptr (exposures s') = [Some 0, Some 1, Some 2]"
    using ex_load_checked by (cases "load ex_dec ex_nth_element (ex_checked, [])") auto
  then obtain s' h' where l: "load ex_dec ex_nth_element (ex_checked, []) = Inr (s', h')"
    and ps: "map image_ptr (exposures s') = [Some 0, Some 1, Some 2]"
    by auto
  from n have k: "2 < length (exposures ex_checked)" by simp
  note E = T [where dec = ex_dec and sel = ex_nth_element and s = ex_checked and h = "[]"
      and s' = s' and h' = h' and k = 2, THEN mp, OF conjI [OF l k]]
  from E obtain raw img a offset factor where
    r: "ex_dec (filename (exposures ex_checked ! 2)) = Decoded raw" and
    off: "offset = (word_of_int (blackLevel raw) :: 16 word)" and
    fac: "factor = fl 24 (1 / fl 24 (real_of_int (whitePoint raw - uint offset)))" and
    p: "exposures s' ! 2 = (exposures ex_checked ! 2)\<lparr>image_ptr := Some a\<rparr>" and
    rd: "read_array h' a = Some img" and
    size: "length img = dim_x raw * dim_y raw" and
    px: "\<forall>y<dim_y raw. \<forall>x<dim_x raw.
           y * (pitch raw div 2) + x < length (raw_data raw) \<and>
           img ! (y * dim_x raw + x) =
             fl 24 (fl 24 (real_of_int
                      (uint (raw_data raw ! (y * (pitch raw div 2) + x)) - uint offset))
                    * factor) \<and>
           (blackLevel raw = 100 \<and> whitePoint raw = 4100 \<and>
            raw_data raw ! (y * (pitch raw div 2) + x) = 2100 \<longrightarrow>
              img ! (y * dim_x raw + x) = 1 / 2)"
    by (elim exE conjE) (rule that, assumption+)
  from r dec have raw: "raw = ?raw" by simp
  have f: "dim_x raw = 2" "dim_y raw = 2" "blackLevel raw = 100" "whitePoint raw = 4100"
    "raw_data raw ! (0 * (pitch raw div 2) + 0) = 2100"
    "raw_data raw ! (1 * (pitch raw div 2) + 1) = 3100"
    by (simp_all add: raw ex_raw_def)
  from f(1,2) have b: "(0::nat) < dim_y raw" "(0::nat) < dim_x raw"
    "(1::nat) < dim_y raw" "(1::nat) < dim_x raw" by simp_all
  from px b(1,2) have "blackLevel raw = 100 \<and> whitePoint raw = 4100 \<and>
      raw_data raw ! (0 * (pitch raw div 2) + 0) = 2100 \<longrightarrow>
        img ! (0 * dim_x raw + 0) = 1 / 2"
    by blast
  with f(3,4,5) have "img ! (0 * dim_x raw + 0) = 1 / 2" by blast
  then have p0: "img ! (0 * 2 + 0) = 1 / 2" by (simp only: f(1))
  from px b(3,4) have "img ! (1 * dim_x raw + 1) =
      fl 24 (fl 24 (real_of_int
               (uint (raw_data raw ! (1 * (pitch raw div 2) + 1)) - uint offset))
             * factor)"
    by blast
  then have "img ! (1 * 2 + 1) =
      fl 24 (fl 24 (real_of_int (3100 - 100)) * fl 24 (1 / fl 24 (real_of_int (4100 - 100))))"
    by (simp only: fac off f ex_offset ex_sample)
  then have p3: "img ! (1 * 2 + 1) = 12582913 / 16777216" by (simp only: ex_pixel_3100)
  from ps have "length (map image_ptr (exposures s')) = 3" by simp
  then have "2 < length (exposures s')" by simp
  then have "image_ptr (exposures s' ! 2) = map image_ptr (exposures s') ! 2"
    by (simp only: nth_map)
  with ps have "image_ptr (exposures s' ! 2) = Some 2" by simp
  with p have a: "a = 2" by simp
  from p a have ptr: "image_ptr (exposures s' ! 2) = Some 2" by simp
  from rd a have rd2: "read_array h' 2 = Some img" by simp
  from size f(1,2) have sz: "length img = 4" by simp
  from n dec l ptr rd2 sz p0 p3 show ?thesis by blast
qed

text \<open>
  The value is not always the exact quotient. Frame \<open>c\<close> of the example decoder has the black
  level 100, the white point 4100 and the sample 3100 at row 1 and column 1. The exact
  quotient of 3000 by 4000 is \<open>3 / 4\<close>; \<^verbatim>\<open>load\<close> stores \<open>12582913 / 16777216\<close>, the \<^verbatim>\<open>float\<close>
  next above \<open>3 / 4\<close>, because \<^verbatim>\<open>factor\<close> is the \<^verbatim>\<open>float\<close> nearest to \<open>1 / 4000\<close>, which is
  greater than \<open>1 / 4000\<close>.
\<close>

theorem load_exact_quotient_counterexample:
  "ex_dec (filename (exposures (ex_series [''c'']) ! 0))
     = Decoded (ex_raw [2100, 4100, 7, 4500, 3100, 7]) \<and>
   (\<exists>s' h' img.
      load ex_dec ex_nth_element (ex_series [''c''], []) = Inr (s', h') \<and>
      image_ptr (exposures s' ! 0) = Some 0 \<and> read_array h' 0 = Some img \<and>
      img ! (1 * dim_x (ex_raw [2100, 4100, 7, 4500, 3100, 7]) + 1) = 12582913 / 16777216 \<and>
      img ! (1 * dim_x (ex_raw [2100, 4100, 7, 4500, 3100, 7]) + 1) \<noteq>
        (real_of_int (uint (raw_data (ex_raw [2100, 4100, 7, 4500, 3100, 7])
            ! (1 * (pitch (ex_raw [2100, 4100, 7, 4500, 3100, 7]) div 2) + 1)))
         - real_of_int (blackLevel (ex_raw [2100, 4100, 7, 4500, 3100, 7])))
        / (real_of_int (whitePoint (ex_raw [2100, 4100, 7, 4500, 3100, 7]))
           - real_of_int (blackLevel (ex_raw [2100, 4100, 7, 4500, 3100, 7]))))"
proof -
  have dec: "ex_dec (filename (exposures (ex_series [''c'']) ! 0))
      = Decoded (ex_raw [2100, 4100, 7, 4500, 3100, 7])"
    by (simp add: ex_series_def Exposure_new_def ex_dec_def)
  have "\<exists>s' h'. load ex_dec ex_nth_element (ex_series [''c''], []) = Inr (s', h') \<and>
      map image_ptr (exposures s') = [Some 0] \<and>
      h' = [Some [1 / 2, 1, 9227469 / 8388608, 12582913 / 16777216], None]"
    using ex_load_c by (cases "load ex_dec ex_nth_element (ex_series [''c''], [])") auto
  then obtain s' h' where l: "load ex_dec ex_nth_element (ex_series [''c''], []) = Inr (s', h')"
    and p: "map image_ptr (exposures s') = [Some 0]"
    and h': "h' = [Some [1 / 2, 1, 9227469 / 8388608, 12582913 / 16777216], None]"
    by auto
  from p have ptr: "image_ptr (exposures s' ! 0) = Some 0" by auto
  from h' have rd: "read_array h' 0 = Some [1 / 2, 1, 9227469 / 8388608, 12582913 / 16777216]"
    by (simp add: read_array_def)
  have v: "[1 / 2, 1, 9227469 / 8388608, 12582913 / 16777216 :: real]
        ! (1 * dim_x (ex_raw [2100, 4100, 7, 4500, 3100, 7]) + 1) = 12582913 / 16777216"
    by (simp add: ex_raw_def)
  have q: "(real_of_int (uint (raw_data (ex_raw [2100, 4100, 7, 4500, 3100, 7])
            ! (1 * (pitch (ex_raw [2100, 4100, 7, 4500, 3100, 7]) div 2) + 1)))
         - real_of_int (blackLevel (ex_raw [2100, 4100, 7, 4500, 3100, 7])))
        / (real_of_int (whitePoint (ex_raw [2100, 4100, 7, 4500, 3100, 7]))
           - real_of_int (blackLevel (ex_raw [2100, 4100, 7, 4500, 3100, 7]))) = 3 / 4"
    by (simp add: ex_raw_def)
  have ne: "(12582913 / 16777216 :: real) \<noteq> 3 / 4" by simp
  have "[1 / 2, 1, 9227469 / 8388608, 12582913 / 16777216 :: real]
        ! (1 * dim_x (ex_raw [2100, 4100, 7, 4500, 3100, 7]) + 1) \<noteq>
        (real_of_int (uint (raw_data (ex_raw [2100, 4100, 7, 4500, 3100, 7])
            ! (1 * (pitch (ex_raw [2100, 4100, 7, 4500, 3100, 7]) div 2) + 1)))
         - real_of_int (blackLevel (ex_raw [2100, 4100, 7, 4500, 3100, 7])))
        / (real_of_int (whitePoint (ex_raw [2100, 4100, 7, 4500, 3100, 7]))
           - real_of_int (blackLevel (ex_raw [2100, 4100, 7, 4500, 3100, 7])))"
    unfolding v q by (rule ne)
  with dec l ptr rd v show ?thesis by blast
qed

subsection \<open>Unsupported formats\<close>

lemma load_loop_InrD:
  "load_loop dec i xs (w, ht, h) = Inr (exs, w', ht', h') \<Longrightarrow> ex \<in> set xs \<Longrightarrow>
   \<exists>raw. dec (filename ex) = Decoded raw \<and> subsampling_x raw = 1 \<and> subsampling_y raw = 1 \<and>
     dataType raw = TYPE_USHORT16 \<and> isCFA raw"
proof (induction xs arbitrary: i w ht h exs)
  case Nil
  then show ?case by simp
next
  case (Cons x xs)
  from Cons.prems(1) obtain x' h1 w1 ht1 exs1 where
    a: "load_exposure dec x h = Inr (x', h1, w1, ht1)" and
    b: "load_loop dec (Suc i) xs (if i = 0 then w1 else w, if i = 0 then ht1 else ht, h1)
          = Inr (exs1, w', ht', h')"
    by (auto split: sum.splits prod.splits)
  show ?case
  proof (cases "ex = x")
    case True
    with a show ?thesis by (elim load_exposure_InrD) auto
  next
    case False
    with Cons.prems(2) have "ex \<in> set xs" by simp
    with Cons.IH [OF b] show ?thesis .
  qed
qed

lemma load_Inr_frames:
  assumes "load dec sel (s, h) = Inr r" and "ex \<in> set (exposures s)"
  shows "\<exists>raw. dec (filename ex) = Decoded raw \<and> subsampling_x raw = 1 \<and> subsampling_y raw = 1 \<and>
     dataType raw = TYPE_USHORT16 \<and> isCFA raw"
proof -
  from assms(1) obtain exs w' ht' h' where
    "load_loop dec 0 (exposures s) (width s, height s, h) = Inr (exs, w', ht', h')"
    by (auto simp: load_def split: sum.splits prod.splits)
  from load_loop_InrD [OF this assms(2)] show ?thesis .
qed

text \<open>
  C7. For a decoded frame, the body of the loop throws the subsampling error when a
  subsampling factor is not 1, the 16-bit error when the subsampling is 1 by 1 and the sample
  type is not \<^verbatim>\<open>TYPE_USHORT16\<close>, and the colour-filter-array error when both are as
  required and the frame has no colour filter array; so each of the three defects alone
  makes the body throw one of the three errors. A series that contains such a frame is never
  loaded.
\<close>

theorem load_rejects_unsupported_formats:
  "(dec (filename ex) = Decoded raw \<and> (subsampling_x raw \<noteq> 1 \<or> subsampling_y raw \<noteq> 1) \<longrightarrow>
      load_exposure dec ex h = Inl Subsampled_not_supported) \<and>
   (dec (filename ex) = Decoded raw \<and> subsampling_x raw = 1 \<and> subsampling_y raw = 1 \<and>
    dataType raw \<noteq> TYPE_USHORT16 \<longrightarrow>
      load_exposure dec ex h = Inl Only_16bit_supported) \<and>
   (dec (filename ex) = Decoded raw \<and> subsampling_x raw = 1 \<and> subsampling_y raw = 1 \<and>
    dataType raw = TYPE_USHORT16 \<and> \<not> isCFA raw \<longrightarrow>
      load_exposure dec ex h = Inl Only_cfa_supported) \<and>
   (dec (filename ex) = Decoded raw \<and>
    (subsampling_x raw \<noteq> 1 \<or> subsampling_y raw \<noteq> 1 \<or> dataType raw \<noteq> TYPE_USHORT16 \<or>
     \<not> isCFA raw) \<longrightarrow>
      load_exposure dec ex h \<in>
        {Inl Subsampled_not_supported, Inl Only_16bit_supported, Inl Only_cfa_supported} \<and>
      (ex \<in> set (exposures s) \<longrightarrow> is_error (load dec sel (s, h0))))"
proof (intro conjI impI)
  assume a: "dec (filename ex) = Decoded raw \<and>
    (subsampling_x raw \<noteq> 1 \<or> subsampling_y raw \<noteq> 1 \<or> dataType raw \<noteq> TYPE_USHORT16 \<or>
     \<not> isCFA raw)"
  then show "load_exposure dec ex h \<in>
      {Inl Subsampled_not_supported, Inl Only_16bit_supported, Inl Only_cfa_supported}"
    by (auto simp: load_exposure_def)
  assume mem: "ex \<in> set (exposures s)"
  show "is_error (load dec sel (s, h0))"
  proof (rule not_Inr_is_error, rule notI)
    assume "\<exists>r. load dec sel (s, h0) = Inr r"
    then obtain r where "load dec sel (s, h0) = Inr r" ..
    from load_Inr_frames [OF this mem] a show False by auto
  qed
qed (auto simp: load_exposure_def)

theorem load_rejects_unsupported_formats_witness:
  "load_exposure ex_dec (Exposure_new ''sub'') [] = Inl Subsampled_not_supported \<and>
   load_exposure ex_dec (Exposure_new ''f32'') [] = Inl Only_16bit_supported \<and>
   load_exposure ex_dec (Exposure_new ''mono'') [] = Inl Only_cfa_supported \<and>
   is_error (load ex_dec ex_nth_element (ex_series [''a'', ''sub''], [])) \<and>
   is_error (load ex_dec ex_nth_element (ex_series [''f32'', ''a''], [])) \<and>
   is_error (load ex_dec ex_nth_element (ex_series [''a'', ''mono'', ''b''], []))"
proof -
  note T = load_rejects_unsupported_formats
  let ?sub = "Exposure_new ''sub''" and ?f32 = "Exposure_new ''f32''"
    and ?mono = "Exposure_new ''mono''"
  have d: "ex_dec (filename ?sub) = Decoded ((ex_raw [])\<lparr>subsampling_x := 2\<rparr>)"
    "ex_dec (filename ?f32) = Decoded ((ex_raw [])\<lparr>dataType := TYPE_FLOAT32\<rparr>)"
    "ex_dec (filename ?mono) = Decoded ((ex_raw [])\<lparr>isCFA := False\<rparr>)"
    by (simp_all add: ex_dec_def Exposure_new_def)
  have p: "subsampling_x ((ex_raw [])\<lparr>subsampling_x := 2\<rparr>) \<noteq> 1"
    "subsampling_x ((ex_raw [])\<lparr>dataType := TYPE_FLOAT32\<rparr>) = 1"
    "subsampling_y ((ex_raw [])\<lparr>dataType := TYPE_FLOAT32\<rparr>) = 1"
    "dataType ((ex_raw [])\<lparr>dataType := TYPE_FLOAT32\<rparr>) \<noteq> TYPE_USHORT16"
    "subsampling_x ((ex_raw [])\<lparr>isCFA := False\<rparr>) = 1"
    "subsampling_y ((ex_raw [])\<lparr>isCFA := False\<rparr>) = 1"
    "dataType ((ex_raw [])\<lparr>isCFA := False\<rparr>) = TYPE_USHORT16"
    "\<not> isCFA ((ex_raw [])\<lparr>isCFA := False\<rparr>)"
    by (simp_all add: ex_raw_def)
  from d(1) p(1) T [where dec = ex_dec and ex = ?sub and h = "[]"
      and raw = "(ex_raw [])\<lparr>subsampling_x := 2\<rparr>"]
  have c1: "load_exposure ex_dec ?sub [] = Inl Subsampled_not_supported" by blast
  from d(2) p(2,3,4) T [where dec = ex_dec and ex = ?f32 and h = "[]"
      and raw = "(ex_raw [])\<lparr>dataType := TYPE_FLOAT32\<rparr>"]
  have c2: "load_exposure ex_dec ?f32 [] = Inl Only_16bit_supported" by blast
  from d(3) p(5,6,7,8) T [where dec = ex_dec and ex = ?mono and h = "[]"
      and raw = "(ex_raw [])\<lparr>isCFA := False\<rparr>"]
  have c3: "load_exposure ex_dec ?mono [] = Inl Only_cfa_supported" by blast
  have m: "?sub \<in> set (exposures (ex_series [''a'', ''sub'']))"
    "?f32 \<in> set (exposures (ex_series [''f32'', ''a'']))"
    "?mono \<in> set (exposures (ex_series [''a'', ''mono'', ''b'']))"
    by (simp_all add: ex_series_def)
  from d(1) p(1) m(1) T [where dec = ex_dec and ex = ?sub and sel = ex_nth_element
      and raw = "(ex_raw [])\<lparr>subsampling_x := 2\<rparr>" and s = "ex_series [''a'', ''sub'']"
      and ?h0.0 = "[]"]
  have c4: "is_error (load ex_dec ex_nth_element (ex_series [''a'', ''sub''], []))" by blast
  from d(2) p(4) m(2) T [where dec = ex_dec and ex = ?f32 and sel = ex_nth_element
      and raw = "(ex_raw [])\<lparr>dataType := TYPE_FLOAT32\<rparr>" and s = "ex_series [''f32'', ''a'']"
      and ?h0.0 = "[]"]
  have c5: "is_error (load ex_dec ex_nth_element (ex_series [''f32'', ''a''], []))" by blast
  from d(3) p(8) m(3) T [where dec = ex_dec and ex = ?mono and sel = ex_nth_element
      and raw = "(ex_raw [])\<lparr>isCFA := False\<rparr>" and s = "ex_series [''a'', ''mono'', ''b'']"
      and ?h0.0 = "[]"]
  have c6: "is_error (load ex_dec ex_nth_element (ex_series [''a'', ''mono'', ''b''], []))" by blast
  from c1 c2 c3 c4 c5 c6 show ?thesis by simp
qed

subsection \<open>Saturation\<close>

lemma nth_element_unique:
  fixes xs ys :: "real list"
  assumes m: "mset ys = mset xs" and n: "n < length ys"
    and lo: "\<forall>i<n. ys ! i \<le> ys ! n"
    and hi: "\<forall>i. n < i \<and> i < length ys \<longrightarrow> ys ! n \<le> ys ! i"
  shows "ys ! n = sort xs ! n"
proof -
  let ?a = "take n ys" and ?v = "ys ! n" and ?b = "drop (Suc n) ys"
  from n have split: "ys = ?a @ ?v # ?b" by (simp add: id_take_nth_drop)
  have a_le: "x \<le> ?v" if "x \<in> set ?a" for x
  proof -
    from that obtain i where "i < length ?a" "x = ?a ! i" by (auto simp: in_set_conv_nth)
    with n lo show ?thesis by simp
  qed
  have b_ge: "?v \<le> y" if "y \<in> set ?b" for y
  proof -
    from that obtain i where i: "i < length ?b" "y = ?b ! i" by (auto simp: in_set_conv_nth)
    then have "y = ys ! (Suc n + i)" "Suc n + i < length ys" by auto
    with hi show ?thesis by auto
  qed
  let ?zs = "sort ?a @ ?v # sort ?b"
  have srt: "sorted ?zs"
    using a_le b_ge by (fastforce simp: sorted_append)
  have ms: "mset ?zs = mset xs"
  proof -
    have "mset ?zs = mset (?a @ ?v # ?b)" by simp
    with split m show ?thesis by simp
  qed
  from ms srt have "sort xs = ?zs" by (rule properties_for_sort)
  moreover from n have "length (sort ?a) = n" by simp
  ultimately show ?thesis by (simp add: nth_append del: sort_key_simps)
qed

lemma sort_satisfies_contract: "nth_element_contract (\<lambda>xs n. sort xs)"
  unfolding nth_element_contract_def
proof (intro allI impI conjI)
  fix xs :: "real list" and n i
  assume n: "n < length xs"
  show "mset (sort xs) = mset xs" by simp
  { assume "i < n"
    with n show "sort xs ! i \<le> sort xs ! n"
      by (intro sorted_nth_mono) auto }
  { assume "n < i \<and> i < length xs"
    then show "sort xs ! n \<le> sort xs ! i"
      by (intro sorted_nth_mono) auto }
qed


lemma normalize_length:
  "normalize_image raw = Inr img \<Longrightarrow> length img = dim_y raw * dim_x raw"
  by (auto simp: normalize_image_def Let_def split: if_splits dest: normalize_rows_Inr)

lemma load_loop_fields:
  "load_loop dec i xs (w, ht, h) = Inr (exs, w', ht', h') \<Longrightarrow>
   map filename exs = map filename xs \<and> map exposure exs = map exposure xs"
proof (induction xs arbitrary: i w ht h exs)
  case Nil
  then show ?case by simp
next
  case (Cons x xs)
  from Cons.prems obtain x' h1 w1 ht1 exs1 where
    a: "load_exposure dec x h = Inr (x', h1, w1, ht1)" and
    b: "load_loop dec (Suc i) xs (if i = 0 then w1 else w, if i = 0 then ht1 else ht, h1)
          = Inr (exs1, w', ht', h')" and
    c: "exs = x' # exs1"
    by (auto split: sum.splits prod.splits)
  from a have "filename x' = filename x \<and> exposure x' = exposure x"
    by (elim load_exposure_InrD) simp
  with Cons.IH [OF b] c show ?case by simp
qed

lemma load_loop_dims:
  "load_loop dec i xs (w, ht, h) = Inr (exs, w', ht', h') \<Longrightarrow>
   (if i = 0 \<and> xs \<noteq> []
    then \<exists>raw. dec (filename (hd xs)) = Decoded raw \<and> w' = dim_x raw \<and> ht' = dim_y raw
    else w' = w \<and> ht' = ht)"
proof (induction xs arbitrary: i w ht h exs)
  case Nil
  then show ?case by simp
next
  case (Cons x xs)
  from Cons.prems obtain x' h1 w1 ht1 exs1 where
    a: "load_exposure dec x h = Inr (x', h1, w1, ht1)" and
    b: "load_loop dec (Suc i) xs (if i = 0 then w1 else w, if i = 0 then ht1 else ht, h1)
          = Inr (exs1, w', ht', h')"
    by (auto split: sum.splits prod.splits)
  from Cons.IH [OF b] have keep: "w' = (if i = 0 then w1 else w) \<and> ht' = (if i = 0 then ht1 else ht)"
    by simp
  from a obtain raw where "dec (filename x) = Decoded raw" "w1 = dim_x raw" "ht1 = dim_y raw"
    by (elim load_exposure_InrD) simp
  with keep show ?case by simp
qed

lemma load_loop_heap:
  "load_loop dec i xs (w, ht, h) = Inr (exs, w', ht', h') \<Longrightarrow>
   (\<exists>new. h' = h @ new) \<and>
   (xs \<noteq> [] \<longrightarrow>
      exs \<noteq> [] \<and>
      (\<exists>raw img. dec (filename (last xs)) = Decoded raw \<and> normalize_image raw = Inr img \<and>
         image_ptr (last exs) = Some (length h' - 1) \<and> h' \<noteq> [] \<and> last h' = Some img))"
proof (induction xs arbitrary: i w ht h exs)
  case Nil
  then show ?case by simp
next
  case (Cons x xs)
  from Cons.prems obtain x' h1 w1 ht1 exs1 where
    a: "load_exposure dec x h = Inr (x', h1, w1, ht1)" and
    b: "load_loop dec (Suc i) xs (if i = 0 then w1 else w, if i = 0 then ht1 else ht, h1)
          = Inr (exs1, w', ht', h')" and
    c: "exs = x' # exs1"
    by (auto split: sum.splits prod.splits)
  from a obtain raw img where x: "dec (filename x) = Decoded raw" "normalize_image raw = Inr img"
    "x' = x\<lparr>image_ptr := Some (length h)\<rparr>" "h1 = h @ [Some img]"
    by (elim load_exposure_InrD) simp
  from Cons.IH [OF b] obtain new where new: "h' = h1 @ new" and
    ih: "xs \<noteq> [] \<longrightarrow> exs1 \<noteq> [] \<and>
      (\<exists>raw img. dec (filename (last xs)) = Decoded raw \<and> normalize_image raw = Inr img \<and>
         image_ptr (last exs1) = Some (length h' - 1) \<and> h' \<noteq> [] \<and> last h' = Some img)"
    by blast
  from new x(4) have pre: "\<exists>new. h' = h @ new" by simp
  show ?case
  proof (cases "xs = []")
    case True
    with b have "exs1 = []" "h' = h1" by simp_all
    with True c x pre show ?thesis by simp
  next
    case False
    with ih c pre show ?thesis by simp
  qed
qed

lemma percentile_eq: "nat \<lfloor>real n * 0.999\<rfloor> = n * 999 div 1000"
proof -
  have "real n * 0.999 = real (n * 999) / real 1000" by simp
  also have "\<lfloor>\<dots>\<rfloor> = int (n * 999 div 1000)" by (rule floor_divide_of_nat_eq)
  finally show ?thesis by simp
qed

lemma sorted_wrt_less_last:
  "sorted_wrt (\<lambda>a b. f a < f b) xs \<Longrightarrow> e \<in> set xs \<Longrightarrow> (f e :: real) \<le> f (last xs)"
proof (induction xs)
  case Nil
  then show ?case by simp
next
  case (Cons x xs)
  show ?case
  proof (cases "xs = []")
    case True
    with Cons.prems show ?thesis by simp
  next
    case False
    then have l: "last xs \<in> set xs" by simp
    show ?thesis
    proof (cases "e = x")
      case True
      from Cons.prems(1) l have "f x < f (last xs)" by simp
      with True False show ?thesis by simp
    next
      case ne: False
      with Cons show ?thesis using False by auto
    qed
  qed
qed

lemma load_InrD:
  assumes c: "nth_element_contract sel" and l: "load dec sel (s, h) = Inr (s', h')"
  obtains exs w ht h1 img where
    "load_loop dec 0 (exposures s) (width s, height s, h) = Inr (exs, w, ht, h1)"
    and "exs \<noteq> []" and "image_ptr (last exs) = Some (length h1 - 1)" and "h1 \<noteq> []"
    and "last h1 = Some img"
    and "0 < w * ht" and "w * ht \<le> length img"
    and "s' = s\<lparr>exposures := exs, width := w, height := ht,
           saturation := sort (take (w * ht) img) ! nat \<lfloor>real (w * ht) * 0.999\<rfloor>\<rparr>"
    and "h' = h1 @ [None]"
proof -
  from l obtain exs w ht h1 where
    loop: "load_loop dec 0 (exposures s) (width s, height s, h) = Inr (exs, w, ht, h1)"
    by (auto simp: load_def split: sum.splits prod.splits)
  with l have ne: "exs \<noteq> []" by (auto simp: load_def split: if_splits)
  have xs_ne: "exposures s \<noteq> []"
  proof
    assume "exposures s = []"
    with loop ne show False by simp
  qed
  from load_loop_heap [OF loop] xs_ne obtain img where
    p: "image_ptr (last exs) = Some (length h1 - 1)" and h1: "h1 \<noteq> []" and
    img: "last h1 = Some img" by blast
  from h1 img have rd: "read_array h1 (length h1 - 1) = Some img"
    by (simp add: read_array_def last_conv_nth)
  let ?n = "w * ht" and ?k = "nat \<lfloor>real (w * ht) * 0.999\<rfloor>"
  from l loop ne p rd have ok: "\<not> (length img < ?n \<or> ?n \<le> ?k)"
    by (auto simp: load_def Let_def split: if_splits)
  then have k: "?k < length (take ?n img)" by simp
  have h3: "write_array (h1 @ [Some (take ?n img)]) (length h1) (sel (take ?n img) ?k)
      = h1 @ [Some (sel (take ?n img) ?k)]"
    by (simp add: write_array_def)
  from l loop ne p rd ok h3
  have s': "s' = s\<lparr>exposures := exs, width := w, height := ht,
           saturation := sel (take ?n img) ?k ! ?k\<rparr>"
    and h': "h' = h1 @ [None]"
    by (auto simp: load_def Let_def new_array_def read_array_def delete_array_def
        split: if_splits)
  from c k have "mset (sel (take ?n img) ?k) = mset (take ?n img)"
    "\<forall>i<?k. sel (take ?n img) ?k ! i \<le> sel (take ?n img) ?k ! ?k"
    "\<forall>i. ?k < i \<and> i < length (take ?n img) \<longrightarrow> sel (take ?n img) ?k ! ?k \<le> sel (take ?n img) ?k ! i"
    unfolding nth_element_contract_def by blast+
  moreover from this(1) k have "?k < length (sel (take ?n img) ?k)"
    by (metis size_mset)
  moreover from calculation(1) have "length (sel (take ?n img) ?k) = length (take ?n img)"
    by (metis size_mset)
  ultimately have "sel (take ?n img) ?k ! ?k = sort (take ?n img) ! ?k"
    by (intro nth_element_unique) auto
  with s' have s'': "s' = s\<lparr>exposures := exs, width := w, height := ht,
           saturation := sort (take ?n img) ! ?k\<rparr>" by simp
  from ok have "?k < ?n" by (simp only: not_le de_Morgan_disj)
  then have pos: "0 < ?n" by (rule le_less_trans [OF le0])
  from ok have le: "?n \<le> length img" by (simp only: not_less de_Morgan_disj)
  show ?thesis by (rule that [OF loop ne p h1 img pos le s'' h'])
qed


text \<open>
  C3. Let \<^verbatim>\<open>std::nth_element\<close> do what the standard requires. When \<^verbatim>\<open>load\<close> returns,
  the series is not empty, the exposures keep their order, names and times, and \<^verbatim>\<open>width\<close>
  and \<^verbatim>\<open>height\<close> are the dimensions of the first frame. With \<open>N = width * height\<close>:
  \<^verbatim>\<open>saturation\<close> is the element at position \<open>\<lfloor>N * 0.999\<rfloor>\<close> of the ascending sort of the
  first \<open>N\<close> values of the normalized image of the last exposure, which are all its values
  when the last frame has the dimensions of the first; this image is still in the heap,
  unchanged, at the address the last exposure points to. When the exposures are strictly
  increasing in the exposure time, as \<^verbatim>\<open>check\<close> leaves them, the last exposure has the
  longest time.
\<close>

theorem load_saturation_is_order_statistic:
  "nth_element_contract sel \<and> load dec sel (s, h) = Inr (s', h') \<longrightarrow>
     exposures s \<noteq> [] \<and>
     map filename (exposures s') = map filename (exposures s) \<and>
     map exposure (exposures s') = map exposure (exposures s) \<and>
     (\<exists>raw. dec (filename (hd (exposures s))) = Decoded raw \<and>
        width s' = dim_x raw \<and> height s' = dim_y raw) \<and>
     (sorted_wrt (\<lambda>a b. exposure a < exposure b) (exposures s) \<longrightarrow>
        (\<forall>e\<in>set (exposures s'). exposure e \<le> exposure (last (exposures s')))) \<and>
     (\<exists>raw img a.
        dec (filename (last (exposures s))) = Decoded raw \<and> normalize_image raw = Inr img \<and>
        image_ptr (last (exposures s')) = Some a \<and> read_array h' a = Some img \<and>
        0 < width s' * height s' \<and> width s' * height s' \<le> length img \<and>
        saturation s' =
          sort (take (width s' * height s') img) ! nat \<lfloor>real (width s' * height s') * 0.999\<rfloor> \<and>
        (dim_x raw * dim_y raw = width s' * height s' \<longrightarrow>
           saturation s' = sort img ! nat \<lfloor>real (length img) * 0.999\<rfloor>))"
proof (intro impI)
  assume a: "nth_element_contract sel \<and> load dec sel (s, h) = Inr (s', h')"
  then obtain exs w ht h1 img where
    loop: "load_loop dec 0 (exposures s) (width s, height s, h) = Inr (exs, w, ht, h1)" and
    ne: "exs \<noteq> []" and p: "image_ptr (last exs) = Some (length h1 - 1)" and
    h1: "h1 \<noteq> []" "last h1 = Some img" and
    n: "0 < w * ht" "w * ht \<le> length img" and
    s': "s' = s\<lparr>exposures := exs, width := w, height := ht,
           saturation := sort (take (w * ht) img) ! nat \<lfloor>real (w * ht) * 0.999\<rfloor>\<rparr>" and
    h': "h' = h1 @ [None]"
    by (elim conjE load_InrD)
  have xs_ne: "exposures s \<noteq> []"
  proof
    assume "exposures s = []"
    with loop ne show False by simp
  qed
  from load_loop_fields [OF loop] s'
  have fields: "map filename (exposures s') = map filename (exposures s)"
    "map exposure (exposures s') = map exposure (exposures s)" by simp_all
  from load_loop_dims [OF loop] xs_ne s'
  have dims: "\<exists>raw. dec (filename (hd (exposures s))) = Decoded raw \<and>
        width s' = dim_x raw \<and> height s' = dim_y raw" by simp
  have longest: "\<forall>e\<in>set (exposures s'). exposure e \<le> exposure (last (exposures s'))"
    if srt: "sorted_wrt (\<lambda>a b. exposure a < exposure b) (exposures s)"
  proof -
    from srt have "sorted_wrt (<) (map exposure (exposures s))" by (simp add: sorted_wrt_map)
    with fields(2) have "sorted_wrt (<) (map exposure (exposures s'))" by simp
    then have "sorted_wrt (\<lambda>a b. exposure a < exposure b) (exposures s')"
      by (simp add: sorted_wrt_map)
    then show ?thesis
      by (intro ballI sorted_wrt_less_last [where f = exposure and xs = "exposures s'"])
  qed
  from load_loop_heap [OF loop] xs_ne h1(2) obtain raw where
    raw: "dec (filename (last (exposures s))) = Decoded raw" "normalize_image raw = Inr img"
    by auto
  from h1 h' have rd: "read_array h' (length h1 - 1) = Some img"
    by (simp add: read_array_def nth_append last_conv_nth)
  from s' have ws: "width s' = w" "height s' = ht" "exposures s' = exs"
    "saturation s' = sort (take (w * ht) img) ! nat \<lfloor>real (w * ht) * 0.999\<rfloor>" by simp_all
  have whole: "saturation s' = sort img ! nat \<lfloor>real (length img) * 0.999\<rfloor>"
    if "dim_x raw * dim_y raw = width s' * height s'"
  proof -
    from normalize_length [OF raw(2)] that ws have "length img = w * ht" by (simp add: mult.commute)
    with ws(4) show ?thesis by simp
  qed
  have last_part: "\<exists>raw img a.
        dec (filename (last (exposures s))) = Decoded raw \<and> normalize_image raw = Inr img \<and>
        image_ptr (last (exposures s')) = Some a \<and> read_array h' a = Some img \<and>
        0 < width s' * height s' \<and> width s' * height s' \<le> length img \<and>
        saturation s' =
          sort (take (width s' * height s') img) ! nat \<lfloor>real (width s' * height s') * 0.999\<rfloor> \<and>
        (dim_x raw * dim_y raw = width s' * height s' \<longrightarrow>
           saturation s' = sort img ! nat \<lfloor>real (length img) * 0.999\<rfloor>)"
    using raw p rd n ws whole
    by (intro exI [of _ raw] exI [of _ img] exI [of _ "length h1 - 1"]) simp_all
  from longest have longest':
    "sorted_wrt (\<lambda>a b. exposure a < exposure b) (exposures s) \<longrightarrow>
        (\<forall>e\<in>set (exposures s'). exposure e \<le> exposure (last (exposures s')))" by blast
  show "exposures s \<noteq> [] \<and>
     map filename (exposures s') = map filename (exposures s) \<and>
     map exposure (exposures s') = map exposure (exposures s) \<and>
     (\<exists>raw. dec (filename (hd (exposures s))) = Decoded raw \<and>
        width s' = dim_x raw \<and> height s' = dim_y raw) \<and>
     (sorted_wrt (\<lambda>a b. exposure a < exposure b) (exposures s) \<longrightarrow>
        (\<forall>e\<in>set (exposures s'). exposure e \<le> exposure (last (exposures s')))) \<and>
     (\<exists>raw img a.
        dec (filename (last (exposures s))) = Decoded raw \<and> normalize_image raw = Inr img \<and>
        image_ptr (last (exposures s')) = Some a \<and> read_array h' a = Some img \<and>
        0 < width s' * height s' \<and> width s' * height s' \<le> length img \<and>
        saturation s' =
          sort (take (width s' * height s') img) ! nat \<lfloor>real (width s' * height s') * 0.999\<rfloor> \<and>
        (dim_x raw * dim_y raw = width s' * height s' \<longrightarrow>
           saturation s' = sort img ! nat \<lfloor>real (length img) * 0.999\<rfloor>))"
    by (intro conjI xs_ne fields dims longest' last_part)
qed


theorem load_saturation_is_order_statistic_witness:
  "nth_element_contract ex_nth_element \<and>
   sorted_wrt (\<lambda>a b. exposure a < exposure b) (exposures ex_checked) \<and>
   (\<exists>s' h'. load ex_dec ex_nth_element (ex_checked, []) = Inr (s', h') \<and>
      map filename (exposures s') = [''b'', ''a'', ''c''] \<and>
      width s' = 2 \<and> height s' = 2 \<and>
      image_ptr (last (exposures s')) = Some 2 \<and>
      read_array h' 2 = Some [1 / 2, 1, 9227469 / 8388608, 12582913 / 16777216] \<and>
      saturation s' = 9227469 / 8388608 \<and>
      exposure (last (exposures s')) = 1 / 8)"
proof -
  note T = load_saturation_is_order_statistic
  have c: "nth_element_contract ex_nth_element"
    using sort_satisfies_contract by (simp add: ex_nth_element_def [abs_def])
  have srt: "sorted_wrt (\<lambda>a b. exposure a < exposure b) (exposures ex_checked)"
    by (simp add: ex_checked_def)
  have "\<exists>s' h'. load ex_dec ex_nth_element (ex_checked, []) = Inr (s', h') \<and>
      map filename (exposures s') = [''b'', ''a'', ''c''] \<and>
      map exposure (exposures s') = [1 / 128, 1 / 32, 1 / 8] \<and>
      map image_ptr (exposures s') = [Some 0, Some 1, Some 2] \<and>
      width s' = 2 \<and> height s' = 2 \<and>
      h' = [Some [0, 1 / 4, 1 / 16, 13421773 / 536870912], Some [0, 1 / 2, 1 / 4, 1 / 8],
            Some [1 / 2, 1, 9227469 / 8388608, 12582913 / 16777216], None]"
    using ex_load_checked by (cases "load ex_dec ex_nth_element (ex_checked, [])") auto
  then obtain s' h' where l: "load ex_dec ex_nth_element (ex_checked, []) = Inr (s', h')"
    and fn: "map filename (exposures s') = [''b'', ''a'', ''c'']"
    and ts: "map exposure (exposures s') = [1 / 128, 1 / 32, 1 / 8]"
    and ps: "map image_ptr (exposures s') = [Some 0, Some 1, Some 2]"
    and wh: "width s' = 2" "height s' = 2"
    and h': "h' = [Some [0, 1 / 4, 1 / 16, 13421773 / 536870912], Some [0, 1 / 2, 1 / 4, 1 / 8],
            Some [1 / 2, 1, 9227469 / 8388608, 12582913 / 16777216], None]"
    by auto
  from fn have ne: "exposures s' \<noteq> []" by auto
  from ne have "image_ptr (last (exposures s')) = last (map image_ptr (exposures s'))"
    by (simp add: last_map)
  with ps have ptr: "image_ptr (last (exposures s')) = Some 2" by simp
  from ne have "exposure (last (exposures s')) = last (map exposure (exposures s'))"
    by (simp add: last_map)
  with ts have longest: "exposure (last (exposures s')) = 1 / 8" by simp
  from h' have rd: "read_array h' 2 = Some [1 / 2, 1, 9227469 / 8388608, 12582913 / 16777216]"
    by (simp add: read_array_def)
  from c l T [where sel = ex_nth_element and dec = ex_dec and s = ex_checked and h = "[]"
      and s' = s' and h' = h']
  obtain img a where "image_ptr (last (exposures s')) = Some a" "read_array h' a = Some img"
    "saturation s' =
      sort (take (width s' * height s') img) ! nat \<lfloor>real (width s' * height s') * 0.999\<rfloor>"
    by blast
  with ptr rd wh
  have "saturation s' = sort (take (2 * 2) [1 / 2, 1, 9227469 / 8388608, 12582913 / 16777216])
      ! nat \<lfloor>real (2 * 2) * 0.999\<rfloor>" by simp
  also have "nat \<lfloor>real (2 * 2) * 0.999\<rfloor> = 3" by (simp only: percentile_eq)
  finally have sat: "saturation s' = 9227469 / 8388608" by simp
  from c srt l fn wh ptr rd sat longest show ?thesis by auto
qed

end
